(* ===== verification/Prelude.thy ===== *)
theory Prelude
  imports Complex_Main "HOL-Library.Word"
begin

text \<open>
  The shared vocabulary of the development: names for Rust's machine integers, the panics of the
  standard library as values, the integer operations of the standard library that the crates
  use, and the generic facts on words and lists that the component theories rely on.

  Machine integers are words, so \<open>+\<close>, \<open>-\<close> and \<open>*\<close> wrap around. That is the arithmetic of the
  release profile, which the workspace's \<^verbatim>\<open>Cargo.toml\<close> configures without overflow checks
  and which the README and \<^verbatim>\<open>scripts/build.sh\<close> build. Signed 64-bit values are kept as their bit
  pattern and read with \<open>sint\<close>.
\<close>

section \<open>Machine integers and byte strings\<close>

type_synonym u8 = "8 word"
type_synonym u16 = "16 word"
type_synonym u32 = "32 word"
type_synonym u64 = "64 word"
type_synonym u128 = "128 word"
type_synonym usize = "64 word"
type_synonym i64 = "64 word"
type_synonym bytes = "8 word list"

text \<open>Slices and \<open>Vec\<close>s never hold more than \<open>isize::MAX\<close> bytes.\<close>

definition isize_max :: nat where
  "isize_max = 2 ^ 63 - 1"

definition usize_len :: "'a list \<Rightarrow> usize" where
  "usize_len xs = of_nat (length xs)"

text \<open>What a call of the standard library does instead of returning, when it panics.\<close>

datatype panic =
    Slice_Out_Of_Range
  | Index_Out_Of_Bounds
  | Unwrap_On_Error
  | Capacity_Overflow

section \<open>Collections of facts\<close>

named_theorems word_nat_simps "reading words as natural numbers when no wrap-around happens"
named_theorems model_simps "characteristic equations of the model's operations"

section \<open>Words\<close>

text \<open>Rust's \<open>saturating_sub\<close>.\<close>

definition saturating_sub :: "'a::len word \<Rightarrow> 'a word \<Rightarrow> 'a word" where
  "saturating_sub a b = (if a < b then 0 else a - b)"

lemma unat_saturating_sub [word_nat_simps]:
  "unat (saturating_sub a b) = unat a - unat b"
  by (simp add: saturating_sub_def unat_sub_if' word_less_nat_alt word_le_nat_alt)

lemma unat_add_no_wrap [word_nat_simps]:
  fixes a b :: "'a::len word"
  assumes "unat a + unat b < 2 ^ LENGTH('a)"
  shows "unat (a + b) = unat a + unat b"
  using assms by (simp add: unat_word_ariths)

lemma unat_usize_len [word_nat_simps]:
  "length xs < 2 ^ 64 \<Longrightarrow> unat (usize_len xs) = length xs"
  by (simp add: usize_len_def unat_of_nat)

lemma of_nat_word_inj:
  assumes "(of_nat i :: 'a::len word) = of_nat j" and "i < 2 ^ LENGTH('a)" and "j < 2 ^ LENGTH('a)"
  shows "i = j"
  using assms by (metis mod_less unat_of_nat)

lemma isize_max_less: "n \<le> isize_max \<Longrightarrow> n < 2 ^ 64"
  by (simp add: isize_max_def)

lemma isize_max_add_less: "m \<le> isize_max \<Longrightarrow> n \<le> isize_max \<Longrightarrow> m + n < 2 ^ 64"
  by (simp add: isize_max_def)

text \<open>Counting up to a word bound terminates.\<close>

lemma word_measure_decreases:
  fixes g m :: "'a::len word"
  assumes "g < m"
  shows "unat m - unat (g + 1) < unat m - unat g" and "unat (g + 1) = unat g + 1"
proof -
  have "unat g < unat m" using assms by (simp add: word_less_nat_alt)
  moreover have "unat m < 2 ^ LENGTH('a)" by (rule unsigned_less)
  ultimately show "unat (g + 1) = unat g + 1" by (simp add: unat_word_ariths del: unsigned_less)
  with \<open>unat g < unat m\<close> show "unat m - unat (g + 1) < unat m - unat g" by simp
qed

subsection \<open>Little-endian bytes\<close>

text \<open>\<open>to_le_bytes\<close> of an integer of \<open>n\<close> bytes.\<close>

definition le_bytes :: "nat \<Rightarrow> 'a::len word \<Rightarrow> bytes" where
  "le_bytes n w = map (\<lambda>i. ucast (drop_bit (8 * i) w)) [0..<n]"

lemma length_le_bytes [simp]: "length (le_bytes n w) = n"
  by (simp add: le_bytes_def)

lemma take_le_bytes: "m \<le> n \<Longrightarrow> take m (le_bytes n w) = le_bytes m w"
  by (simp add: le_bytes_def take_map)

lemma bit_le_bytes:
  assumes "i < n" "j < 8"
  shows "bit (le_bytes n w ! i) j \<longleftrightarrow> bit w (8 * i + j)"
  using assms by (simp add: le_bytes_def bit_unsigned_iff bit_drop_bit_eq)

text \<open>The first \<open>n\<close> bytes determine a value that fits in them.\<close>

lemma le_bytes_inject:
  fixes v w :: "'a::len word"
  assumes eq: "le_bytes n v = le_bytes n w"
    and v: "unat v < 2 ^ (8 * n)" and w: "unat w < 2 ^ (8 * n)"
  shows "v = w"
proof (rule bit_word_eqI)
  fix k
  have high: "\<not> bit u k" if "8 * n \<le> k" "unat u < 2 ^ (8 * n)" for u :: "'a word"
  proof -
    have "unat u < 2 ^ k"
      using that by (meson order_less_le_trans one_le_numeral power_increasing)
    then have "\<not> bit (unat u) k"
      by (simp add: bit_iff_odd)
    then show ?thesis
      by (simp add: bit_unsigned_iff)
  qed
  show "bit v k = bit w k"
  proof (cases "k < 8 * n")
    case True
    have "bit (le_bytes n v ! (k div 8)) (k mod 8) = bit (le_bytes n w ! (k div 8)) (k mod 8)"
      using eq by simp
    moreover have "k div 8 < n" using True by (simp add: less_mult_imp_div_less mult.commute)
    ultimately show ?thesis by (simp add: bit_le_bytes)
  next
    case False
    then show ?thesis using high[of v] high[of w] v w by simp
  qed
qed

section \<open>Lists\<close>

lemma sum_list_take_le: "sum_list (map (f :: 'a \<Rightarrow> nat) (take n xs)) \<le> sum_list (map f xs)"
  by (metis append_take_drop_id le_add1 map_append sum_list_append)

lemma sum_list_drop_le: "sum_list (map (f :: 'a \<Rightarrow> nat) (drop n xs)) \<le> sum_list (map f xs)"
  by (metis append_take_drop_id le_add2 map_append sum_list_append)

lemma length_filter_add_not:
  "length (filter P xs) + length (filter (\<lambda>x. \<not> P x) xs) = length xs"
  by (induction xs) auto

text \<open>A list is cut in one way at the first occurrence of a separator.\<close>

lemma append_sep_inject:
  assumes "c \<notin> set xs" and "c \<notin> set ys"
  shows "xs @ c # us = ys @ c # vs \<longleftrightarrow> xs = ys \<and> us = vs"
  using assms
proof (induction xs arbitrary: ys)
  case Nil
  then show ?case by (cases ys) auto
next
  case (Cons x xs)
  then show ?case by (cases ys) auto
qed

text \<open>Two tails of a list are equal when they are equally long, and else one is a tail of the other.\<close>

lemma drop_eq_by_length:
  assumes "length (drop i xs) = length (drop j xs)"
  shows "drop i xs = drop j xs"
proof (cases "i < length xs \<or> j < length xs")
  case True
  with assms have "i = j" by auto
  then show ?thesis by simp
next
  case False
  then show ?thesis by simp
qed

lemma drop_drop_by_length:
  assumes "length (drop j xs) \<le> length (drop i xs)"
  shows "\<exists>m. drop j xs = drop m (drop i xs)"
proof (cases "i \<le> j")
  case True
  then show ?thesis by (intro exI[of _ "j - i"]) simp
next
  case False
  with assms have "length xs \<le> j" by auto
  then show ?thesis by (intro exI[of _ "length xs"]) simp
qed

end
