(* ===== verification/Float64.thy ===== *)
theory Float64
  imports Prelude
begin

text \<open>
  IEEE 754 binary floating point, for the \<^verbatim>\<open>f64\<close> and \<^verbatim>\<open>f32\<close> values of the crates: an exact rational
  for a finite value, the two infinities and NaN. Comparisons are Rust's (NaN compares false with
  everything); arithmetic, literals and integer casts round the exact result to nearest, ties to
  even, and overflow to an infinity. The two zeros are one value here: only the printing of a
  sensor reading would tell them apart. The lemmas give the facts about rounding that the components
  need: it is monotone, exact on representable values, and odd.
\<close>

section \<open>Values, comparisons\<close>

datatype fp = Fin rat | PInf | NInf | NaN

type_synonym f64 = fp
type_synonym f32 = fp

instantiation fp :: ord
begin

fun less_fp :: "fp \<Rightarrow> fp \<Rightarrow> bool" where
  "less_fp (Fin x) (Fin y) = (x < y)"
| "less_fp NaN _ = False"
| "less_fp _ NaN = False"
| "less_fp PInf _ = False"
| "less_fp _ NInf = False"
| "less_fp _ _ = True"

fun less_eq_fp :: "fp \<Rightarrow> fp \<Rightarrow> bool" where
  "less_eq_fp (Fin x) (Fin y) = (x \<le> y)"
| "less_eq_fp NaN _ = False"
| "less_eq_fp _ NaN = False"
| "less_eq_fp NInf _ = True"
| "less_eq_fp _ PInf = True"
| "less_eq_fp _ _ = False"

instance ..

end

lemma fp_less_trans: "(a :: fp) < b \<Longrightarrow> b < c \<Longrightarrow> a < c"
  by (cases a; cases b; cases c) auto

lemma fp_less_imp_le: "(a :: fp) < b \<Longrightarrow> a \<le> b"
  by (cases a; cases b) auto

lemma fp_less_le_trans: "(a :: fp) < b \<Longrightarrow> b \<le> c \<Longrightarrow> a < c"
  by (cases a; cases b; cases c) auto

lemma fp_le_less_trans: "(a :: fp) \<le> b \<Longrightarrow> b < c \<Longrightarrow> a < c"
  by (cases a; cases b; cases c) auto

lemma fp_not_NaN_total: "a \<noteq> NaN \<Longrightarrow> b \<noteq> NaN \<Longrightarrow> \<not> a < b \<longleftrightarrow> b \<le> (a :: fp)"
  by (cases a; cases b) auto

section \<open>Rounding\<close>

text \<open>Round to the nearest integer, ties to even.\<close>

definition rne :: "rat \<Rightarrow> int" where
  "rne x = (let f = \<lfloor>x\<rfloor>; d = x - of_int f
            in if d < 1 / 2 then f else if 1 / 2 < d then f + 1
               else if even f then f else f + 1)"

lemma rne_of_int [simp]: "rne (of_int n) = n"
  by (simp add: rne_def)

lemma rne_bounds: "\<lfloor>x\<rfloor> \<le> rne x \<and> rne x \<le> \<lfloor>x\<rfloor> + 1"
  by (auto simp: rne_def Let_def)

lemma rne_error: "\<bar>of_int (rne x) - x\<bar> \<le> 1 / 2"
  using floor_correct[of x] by (auto simp: rne_def Let_def abs_le_iff)

lemma rne_mono: "x \<le> y \<Longrightarrow> rne x \<le> rne y"
proof (cases "\<lfloor>x\<rfloor> = \<lfloor>y\<rfloor>")
  case True
  assume "x \<le> y"
  with True show ?thesis by (auto simp: rne_def Let_def)
next
  case False
  assume "x \<le> y"
  then have "\<lfloor>x\<rfloor> \<le> \<lfloor>y\<rfloor>" by (rule floor_mono)
  with False have "\<lfloor>x\<rfloor> + 1 \<le> \<lfloor>y\<rfloor>" by linarith
  with rne_bounds[of x] rne_bounds[of y] show ?thesis by linarith
qed

lemma rne_minus: "rne (- x) = - rne x"
proof (cases "x = of_int \<lfloor>x\<rfloor>")
  case True
  then have "rne (- x) = - \<lfloor>x\<rfloor>" and "rne x = \<lfloor>x\<rfloor>"
    using rne_of_int[of "- \<lfloor>x\<rfloor>"] rne_of_int[of "\<lfloor>x\<rfloor>"] by (metis of_int_minus)+
  then show ?thesis by simp
next
  case False
  then have lt: "of_int \<lfloor>x\<rfloor> < x" "x < of_int \<lfloor>x\<rfloor> + 1"
    using of_int_floor_le[of x] floor_correct[of x] by (auto simp only: less_le of_int_add of_int_1)
  then have "\<lfloor>- x\<rfloor> = - \<lfloor>x\<rfloor> - 1"
    by (simp add: floor_eq_iff)
  with lt show ?thesis
    by (auto simp: rne_def Let_def)
qed

text \<open>The binary exponent of a positive rational: the \<open>k\<close> with \<open>2 ^ k \<le> x < 2 ^ (k + 1)\<close>.\<close>

fun ilog2 :: "nat \<Rightarrow> nat" where
  "ilog2 n = (if n \<le> 1 then 0 else Suc (ilog2 (n div 2)))"

declare ilog2.simps [simp del]

lemma ilog2_bounds: "0 < n \<Longrightarrow> 2 ^ ilog2 n \<le> n \<and> n < 2 ^ Suc (ilog2 n)"
proof (induction n rule: ilog2.induct)
  case (1 n)
  show ?case
  proof (cases "n \<le> 1")
    case True
    with 1 show ?thesis by (simp add: ilog2.simps[of n])
  next
    case False
    then have "2 ^ ilog2 (n div 2) \<le> n div 2 \<and> n div 2 < 2 ^ Suc (ilog2 (n div 2))"
      using 1 by simp
    then show ?thesis using False by (auto simp: ilog2.simps[of n])
  qed
qed

definition rexp :: "rat \<Rightarrow> int" where
  "rexp x = (case quotient_of x of (n, d) \<Rightarrow>
     let k = int (ilog2 (nat n)) - int (ilog2 (nat d))
     in if 2 powi k \<le> x then k else k - 1)"

lemma ilog2_rat_bounds:
  assumes "0 < n"
  shows "(2 :: rat) powi int (ilog2 (nat n)) \<le> of_int n"
    and "(of_int n :: rat) < 2 powi (int (ilog2 (nat n)) + 1)"
proof -
  have b: "2 ^ ilog2 (nat n) \<le> nat n" "nat n < 2 ^ Suc (ilog2 (nat n))"
    using ilog2_bounds[of "nat n"] assms by simp_all
  have "(of_nat (2 ^ ilog2 (nat n)) :: rat) \<le> of_nat (nat n)"
    using b(1) by (simp only: of_nat_le_iff)
  then show "(2 :: rat) powi int (ilog2 (nat n)) \<le> of_int n"
    using assms by (simp add: power_int_def)
  have "(of_nat (nat n) :: rat) < of_nat (2 ^ Suc (ilog2 (nat n)))"
    using b(2) by (simp only: of_nat_less_iff)
  then show "(of_int n :: rat) < 2 powi (int (ilog2 (nat n)) + 1)"
    using assms by (simp add: power_int_def nat_add_distrib)
qed

lemma rexp_bounds:
  assumes "0 < x"
  shows "2 powi rexp x \<le> x" and "x < 2 powi (rexp x + 1)"
proof -
  obtain n d where q: "quotient_of x = (n, d)" by (cases "quotient_of x")
  then have d: "0 < d" and x: "x = of_int n / of_int d"
    by (auto intro: quotient_of_denom_pos quotient_of_div)
  with assms have n: "0 < n" by (simp add: zero_less_divide_iff)
  define ln ld where "ln = int (ilog2 (nat n))" and "ld = int (ilog2 (nat d))"
  note nb = ilog2_rat_bounds[OF n, folded ln_def] and db = ilog2_rat_bounds[OF d, folded ld_def]
  have dpos: "(0 :: rat) < of_int d" using d by simp
  have "of_int n < (2 :: rat) powi (ln + 1)" by (rule nb)
  also have "\<dots> = 2 powi (ln - ld + 1) * 2 powi ld"
    by (simp flip: power_int_add)
  also have "\<dots> \<le> 2 powi (ln - ld + 1) * of_int d"
    using db by (intro mult_left_mono) auto
  finally have hi: "x < 2 powi (ln - ld + 1)"
    using dpos by (simp add: x divide_less_eq)
  have "(2 :: rat) powi (ln - ld - 1) * of_int d < 2 powi (ln - ld - 1) * 2 powi (ld + 1)"
    using db by (intro mult_strict_left_mono) auto
  also have "\<dots> = 2 powi ln"
    by (simp flip: power_int_add)
  also have "\<dots> \<le> of_int n" by (rule nb)
  finally have lo: "2 powi (ln - ld - 1) < x"
    using dpos by (simp add: x less_divide_eq)
  show "2 powi rexp x \<le> x" and "x < 2 powi (rexp x + 1)"
    using hi lo by (auto simp: rexp_def q Let_def ln_def ld_def)
qed

lemma rexp_mono:
  assumes "0 < x" "x \<le> y"
  shows "rexp x \<le> rexp y"
proof (rule ccontr)
  assume "\<not> rexp x \<le> rexp y"
  then have "(2 :: rat) powi (rexp y + 1) \<le> 2 powi rexp x"
    by (intro power_int_increasing) auto
  also have "\<dots> \<le> x" using assms by (simp add: rexp_bounds)
  also have "x \<le> y" by fact
  also have "y < 2 powi (rexp y + 1)" using assms by (simp add: rexp_bounds)
  finally show False by simp
qed

lemma rexp_less:
  assumes "0 < x" "x < 2 powi k"
  shows "rexp x < k"
proof (rule ccontr)
  assume "\<not> rexp x < k"
  then have "(2 :: rat) powi k \<le> 2 powi rexp x"
    by (intro power_int_increasing) auto
  also have "\<dots> \<le> x" using assms by (simp add: rexp_bounds)
  finally show False using assms by simp
qed

section \<open>Formats\<close>

text \<open>
  A format: its precision, the exponent of its smallest subnormal and its largest exponent. A
  positive value is rounded to a multiple of \<open>2 ^ ulp_exp\<close>.
\<close>

record float_format =
  fprec :: nat
  femin :: int
  femax :: int

definition binary64 :: float_format where
  "binary64 = \<lparr>fprec = 53, femin = -1074, femax = 1023\<rparr>"

definition binary32 :: float_format where
  "binary32 = \<lparr>fprec = 24, femin = -149, femax = 127\<rparr>"

definition ulp_exp :: "float_format \<Rightarrow> rat \<Rightarrow> int" where
  "ulp_exp F x = max (rexp \<bar>x\<bar> - (int (fprec F) - 1)) (femin F)"

definition fround :: "float_format \<Rightarrow> rat \<Rightarrow> rat" where
  "fround F x = (if x = 0 then 0
     else of_int (rne (x / 2 powi ulp_exp F x)) * 2 powi ulp_exp F x)"

text \<open>The rounded result as a value of the format: too large a result is an infinity.\<close>

definition fp_of_rat :: "float_format \<Rightarrow> rat \<Rightarrow> fp" where
  "fp_of_rat F x = (let r = fround F x
     in if 2 powi (femax F + 1) \<le> r then PInf
        else if r \<le> - (2 powi (femax F + 1)) then NInf
        else Fin r)"

text \<open>The finite values of the format.\<close>

definition fp_in :: "float_format \<Rightarrow> fp \<Rightarrow> bool" where
  "fp_in F v = (case v of Fin q \<Rightarrow> fround F q = q \<and> \<bar>q\<bar> < 2 powi (femax F + 1) | _ \<Rightarrow> True)"

lemma ulp_exp_minus [simp]: "ulp_exp F (- x) = ulp_exp F x"
  by (simp add: ulp_exp_def)

lemma fround_0 [simp]: "fround F 0 = 0"
  by (simp add: fround_def)

lemma fround_minus: "fround F (- x) = - fround F x"
  by (simp add: fround_def rne_minus)

lemma fround_nonneg: "0 \<le> x \<Longrightarrow> 0 \<le> fround F x"
  using rne_mono[of 0 "x / 2 powi ulp_exp F x"] rne_of_int[of 0]
  by (auto simp: fround_def)

text \<open>Values with a short significand are exact.\<close>

lemma fround_exact_less:
  assumes q: "q = of_int m * 2 powi e" and m: "\<bar>m\<bar> < 2 ^ fprec F" and e: "femin F \<le> e"
  shows "fround F q = q"
proof (cases "q = 0")
  case False
  define u where "u = ulp_exp F q"
  have "\<bar>q\<bar> = of_int \<bar>m\<bar> * 2 powi e" by (simp add: q abs_mult)
  also have "\<dots> < of_int (2 ^ fprec F) * 2 powi e"
    using m by (intro mult_strict_right_mono) (simp_all only: of_int_less_iff, simp)
  also have "\<dots> = (2 :: rat) powi (int (fprec F) + e)"
    by (simp add: power_int_add)
  finally have "rexp \<bar>q\<bar> < int (fprec F) + e"
    using False by (intro rexp_less) auto
  then have "u \<le> e" using e by (simp add: u_def ulp_exp_def)
  then have "(2 :: rat) powi e / 2 powi u = of_int (2 ^ nat (e - u))"
    by (simp add: power_int_def[of _ "e - u"] flip: power_int_diff)
  then have "of_int m * (2 powi e / 2 powi u) = (of_int (m * 2 ^ nat (e - u)) :: rat)"
    by simp
  then have k: "q / 2 powi u = of_int (m * 2 ^ nat (e - u))"
    by (simp only: q times_divide_eq_right)
  then have "rne (q / 2 powi u) = m * 2 ^ nat (e - u)" by (simp only: rne_of_int)
  then have "fround F q = of_int (m * 2 ^ nat (e - u)) * 2 powi u"
    using False by (simp add: fround_def u_def)
  also have "\<dots> = q" using k by (simp add: field_simps)
  finally show ?thesis .
qed simp

lemma fround_exact:
  assumes q: "q = of_int m * 2 powi e" and m: "\<bar>m\<bar> \<le> 2 ^ fprec F" and e: "femin F \<le> e"
    and p: "0 < fprec F"
  shows "fround F q = q"
proof (cases "\<bar>m\<bar> = 2 ^ fprec F")
  case True
  have two: "(2 :: int) ^ fprec F = 2 * 2 ^ (fprec F - 1)"
    using p by (cases "fprec F") simp_all
  have "q = of_int (sgn m * 2 ^ (fprec F - 1)) * 2 powi (e + 1)"
  proof -
    have "m = sgn m * 2 ^ (fprec F - 1) * 2"
      using True two by (metis mult.assoc mult.commute sgn_mult_abs)
    then have "(of_int m :: rat) = of_int (sgn m * 2 ^ (fprec F - 1)) * 2"
      by (metis of_int_mult of_int_numeral)
    moreover have "(2 :: rat) powi (e + 1) = 2 * 2 powi e"
      by (simp add: power_int_add_1)
    ultimately show ?thesis by (simp add: q)
  qed
  moreover have "\<bar>sgn m * 2 ^ (fprec F - 1)\<bar> < 2 ^ fprec F"
    unfolding two by (simp add: abs_mult abs_sgn_eq)
  ultimately show ?thesis
    using fround_exact_less[of q "sgn m * 2 ^ (fprec F - 1)" "e + 1" F] e by simp
next
  case False
  with m show ?thesis by (intro fround_exact_less[OF q _ e]) simp
qed

text \<open>Rounding yields such a value, so it is idempotent.\<close>

lemma fround_form:
  assumes p: "0 < fprec F"
  obtains m e where "fround F x = of_int m * 2 powi e" "\<bar>m\<bar> \<le> 2 ^ fprec F" "femin F \<le> e"
proof -
  have pos: "\<exists>m e. fround F y = of_int m * 2 powi e \<and> \<bar>m\<bar> \<le> 2 ^ fprec F \<and> femin F \<le> e"
    if y: "0 < y" for y
  proof -
    define u where "u = ulp_exp F y"
    have "rexp y + 1 \<le> u + int (fprec F)" using y by (simp add: u_def ulp_exp_def)
    then have "(2 :: rat) powi (rexp y + 1) \<le> 2 powi (u + int (fprec F))"
      by (intro power_int_increasing) auto
    then have "y \<le> 2 powi (u + int (fprec F))"
      using rexp_bounds(2)[OF y] by linarith
    then have "y / 2 powi u \<le> of_int (2 ^ fprec F)"
      by (simp add: divide_le_eq power_int_add mult.commute)
    then have "rne (y / 2 powi u) \<le> 2 ^ fprec F"
      by (metis rne_mono rne_of_int)
    moreover have "0 \<le> rne (y / 2 powi u)"
      using rne_mono[of 0 "y / 2 powi u"] rne_of_int[of 0] y by simp
    moreover have "fround F y = of_int (rne (y / 2 powi u)) * 2 powi u"
      using y by (simp add: fround_def u_def)
    moreover have "femin F \<le> u" by (simp add: u_def ulp_exp_def)
    ultimately show ?thesis by (intro exI[of _ "rne (y / 2 powi u)"] exI[of _ u]) simp
  qed
  consider "x = 0" | "0 < x" | "0 < - x" by linarith
  then show ?thesis
  proof cases
    case 1
    then show ?thesis using that[of 0 "femin F"] by simp
  next
    case 2
    then show ?thesis using pos that by blast
  next
    case 3
    from pos[OF this] obtain m e where
      "fround F (- x) = of_int m * 2 powi e" "\<bar>m\<bar> \<le> 2 ^ fprec F" "femin F \<le> e" by blast
    then show ?thesis using that[of "- m" e] by (simp add: fround_minus minus_equation_iff)
  qed
qed

lemma fround_idem: "0 < fprec F \<Longrightarrow> fround F (fround F x) = fround F x"
  by (metis fround_form fround_exact)

text \<open>Rounding is monotone: within a binade by \<open>rne_mono\<close>, across binades by their bounds.\<close>

lemma fround_mono_pos:
  assumes p: "0 < fprec F" and x: "0 < x" and xy: "x \<le> y"
  shows "fround F x \<le> fround F y"
proof -
  define u v where "u = ulp_exp F x" and "v = ulp_exp F y"
  have y: "0 < y" using x xy by simp
  have fx: "fround F x = of_int (rne (x / 2 powi u)) * 2 powi u"
    and fy: "fround F y = of_int (rne (y / 2 powi v)) * 2 powi v"
    using x y by (simp_all add: fround_def u_def v_def)
  have "rexp x \<le> rexp y" using x xy by (rule rexp_mono)
  then have uv: "u \<le> v" using x y by (simp add: u_def v_def ulp_exp_def)
  show ?thesis
  proof (cases "u = v")
    case True
    have "rne (x / 2 powi v) \<le> rne (y / 2 powi v)"
      using xy by (intro rne_mono divide_right_mono) auto
    then show ?thesis by (simp add: fx fy True)
  next
    case False
    with uv have "u < v" by simp
    then have v: "v = rexp y - (int (fprec F) - 1)" and u: "rexp x + 1 \<le> u + int (fprec F)"
      using x y by (auto simp: u_def v_def ulp_exp_def)
    have "x \<le> 2 powi (u + int (fprec F))"
      using rexp_bounds(2)[OF x] power_int_increasing[OF u, of "2 :: rat"] by simp
    then have "x / 2 powi u \<le> of_int (2 ^ fprec F)"
      by (simp add: divide_le_eq power_int_add mult.commute)
    then have "rne (x / 2 powi u) \<le> 2 ^ fprec F"
      by (metis rne_mono rne_of_int)
    then have "fround F x \<le> of_int (2 ^ fprec F) * 2 powi u"
      unfolding fx by (intro mult_right_mono) (simp_all only: of_int_le_iff, simp)
    also have "\<dots> = 2 powi (u + int (fprec F))" by (simp add: power_int_add)
    also have "\<dots> \<le> 2 powi (v + int (fprec F - 1))"
      using \<open>u < v\<close> p by (intro power_int_increasing) auto
    also have "\<dots> = of_int (2 ^ (fprec F - 1)) * 2 powi v" by (simp add: power_int_add)
    also have "\<dots> \<le> fround F y"
    proof -
      have "2 powi (v + int (fprec F - 1)) \<le> y"
        using rexp_bounds(1)[OF y] p by (simp add: v of_nat_diff)
      then have "of_int (2 ^ (fprec F - 1)) \<le> y / 2 powi v"
        by (simp add: le_divide_eq power_int_add mult.commute)
      then have "2 ^ (fprec F - 1) \<le> rne (y / 2 powi v)"
        by (metis rne_mono rne_of_int)
      then show ?thesis
        unfolding fy by (intro mult_right_mono) (simp_all only: of_int_le_iff, simp)
    qed
    finally show ?thesis .
  qed
qed

lemma fround_mono:
  assumes p: "0 < fprec F" and xy: "x \<le> y"
  shows "fround F x \<le> fround F y"
proof (cases "0 < x \<or> y < 0")
  case True
  then show ?thesis
    using fround_mono_pos[OF p, of x y] fround_mono_pos[OF p, of "- y" "- x"] xy
    by (auto simp: fround_minus)
next
  case False
  then have "fround F x \<le> 0" "0 \<le> fround F y"
    using fround_nonneg[of "- x" F] fround_nonneg[of y F] by (simp_all add: fround_minus)
  then show ?thesis by simp
qed

text \<open>So a representable value separates results the way it separates exact values.\<close>

lemma fround_le_rep: "0 < fprec F \<Longrightarrow> fround F r = r \<Longrightarrow> x \<le> r \<Longrightarrow> fround F x \<le> r"
  using fround_mono[of F x r] by simp

lemma fround_ge_rep: "0 < fprec F \<Longrightarrow> fround F r = r \<Longrightarrow> r \<le> x \<Longrightarrow> r \<le> fround F x"
  using fround_mono[of F r x] by simp

lemma fround_of_int:
  assumes "\<bar>n\<bar> \<le> 2 ^ fprec F" "femin F \<le> 0" "0 < fprec F"
  shows "fround F (of_int n) = of_int n"
  using assms by (intro fround_exact[of _ n 0]) auto

section \<open>Arithmetic\<close>

text \<open>A literal, and an integer cast with \<^verbatim>\<open>as f64\<close>, are rounded too.\<close>

definition f64_lit :: "rat \<Rightarrow> f64" where
  "f64_lit q = fp_of_rat binary64 q"

definition f32_lit :: "rat \<Rightarrow> f32" where
  "f32_lit q = fp_of_rat binary32 q"

definition f64_of_int :: "int \<Rightarrow> f64" where
  "f64_of_int n = fp_of_rat binary64 (of_int n)"

text \<open>\<^verbatim>\<open>f64::EPSILON\<close>, the distance from 1 to the next larger value.\<close>

definition f64_epsilon :: f64 where
  "f64_epsilon = Fin (1 / 2 ^ 52)"

fun fp_neg :: "fp \<Rightarrow> fp" where
  "fp_neg (Fin x) = Fin (- x)"
| "fp_neg PInf = NInf"
| "fp_neg NInf = PInf"
| "fp_neg NaN = NaN"

fun fp_abs :: "fp \<Rightarrow> fp" where
  "fp_abs (Fin x) = Fin \<bar>x\<bar>"
| "fp_abs NaN = NaN"
| "fp_abs _ = PInf"

fun fp_add :: "float_format \<Rightarrow> fp \<Rightarrow> fp \<Rightarrow> fp" where
  "fp_add F (Fin x) (Fin y) = fp_of_rat F (x + y)"
| "fp_add F NaN _ = NaN"
| "fp_add F _ NaN = NaN"
| "fp_add F PInf NInf = NaN"
| "fp_add F NInf PInf = NaN"
| "fp_add F PInf _ = PInf"
| "fp_add F NInf _ = NInf"
| "fp_add F (Fin _) y = y"

definition fp_sub :: "float_format \<Rightarrow> fp \<Rightarrow> fp \<Rightarrow> fp" where
  "fp_sub F x y = fp_add F x (fp_neg y)"

text \<open>An infinity of the given sign; a zero factor of an infinity gives NaN.\<close>

definition inf_of_sign :: "rat \<Rightarrow> fp" where
  "inf_of_sign s = (if 0 < s then PInf else if s < 0 then NInf else NaN)"

fun fp_sgn :: "fp \<Rightarrow> rat" where
  "fp_sgn (Fin x) = sgn x"
| "fp_sgn PInf = 1"
| "fp_sgn NInf = -1"
| "fp_sgn NaN = 0"

fun fp_mul :: "float_format \<Rightarrow> fp \<Rightarrow> fp \<Rightarrow> fp" where
  "fp_mul F (Fin x) (Fin y) = fp_of_rat F (x * y)"
| "fp_mul F NaN _ = NaN"
| "fp_mul F _ NaN = NaN"
| "fp_mul F x y = inf_of_sign (fp_sgn x * fp_sgn y)"

subsection \<open>Facts for binary64\<close>

lemma binary64_sel [simp]:
  "fprec binary64 = 53" "femin binary64 = -1074" "femax binary64 = 1023"
  by (simp_all add: binary64_def)

lemma binary32_sel [simp]:
  "fprec binary32 = 24" "femin binary32 = -149" "femax binary32 = 127"
  by (simp_all add: binary32_def)

lemma two_powi_1024: "(2 :: rat) powi 1024 = 2 ^ 1024"
  by (simp add: power_int_def)

lemma big_less_2_1024: "(x :: rat) \<le> 2 ^ 64 \<Longrightarrow> x < 2 ^ 1024"
proof -
  assume "x \<le> 2 ^ 64"
  also have "(2 :: rat) ^ 64 < 2 ^ 1024" by (rule power_strict_increasing) auto
  finally show ?thesis .
qed

lemma fp_of_rat_Fin:
  assumes "\<bar>fround binary64 x\<bar> \<le> 2 ^ 64"
  shows "fp_of_rat binary64 x = Fin (fround binary64 x)"
  using assms big_less_2_1024[of "fround binary64 x"] big_less_2_1024[of "- fround binary64 x"]
  by (auto simp: fp_of_rat_def Let_def power_int_def abs_le_iff)

lemma fround64_int: "\<bar>n\<bar> \<le> 2 ^ 53 \<Longrightarrow> fround binary64 (of_int n) = of_int n"
  by (rule fround_of_int) auto

lemma fround64_numeral [simp]:
  "(numeral k :: int) \<le> 2 ^ 53 \<Longrightarrow> fround binary64 (numeral k) = numeral k"
  using fround64_int[of "numeral k"] by simp

lemma fround64_1 [simp]: "fround binary64 1 = 1"
  using fround64_int[of 1] by simp

lemma fround64_between:
  assumes "fround binary64 lo = lo" "fround binary64 hi = hi" "lo \<le> x" "x \<le> hi"
  shows "lo \<le> fround binary64 x" "fround binary64 x \<le> hi"
  using assms by (auto intro: fround_ge_rep fround_le_rep)

lemma f64_lit_0 [simp]: "f64_lit 0 = Fin 0"
  by (simp add: f64_lit_def fp_of_rat_Fin)

lemma f64_lit_1 [simp]: "f64_lit 1 = Fin 1"
  by (simp add: f64_lit_def fp_of_rat_Fin)

lemma f64_lit_numeral [simp]:
  "(numeral k :: int) \<le> 2 ^ 53 \<Longrightarrow> f64_lit (numeral k) = Fin (numeral k)"
proof -
  assume k: "(numeral k :: int) \<le> 2 ^ 53"
  then have "(numeral k :: rat) \<le> 2 ^ 53"
    by (metis of_int_le_iff of_int_numeral of_int_power)
  also have "(2 :: rat) ^ 53 \<le> 2 ^ 64" by simp
  finally show ?thesis using k by (simp add: f64_lit_def fp_of_rat_Fin)
qed

lemma f64_lit_of_int: "\<bar>n\<bar> \<le> 2 ^ 53 \<Longrightarrow> f64_lit (of_int n) = Fin (of_int n)"
proof -
  assume n: "\<bar>n\<bar> \<le> 2 ^ 53"
  then have "\<bar>of_int n\<bar> \<le> (of_int (2 ^ 64) :: rat)"
    unfolding of_int_abs[symmetric] of_int_le_iff by simp
  then show ?thesis using n by (simp add: f64_lit_def fp_of_rat_Fin fround64_int)
qed

lemma fp_in_small: "fround binary64 q = q \<Longrightarrow> \<bar>q\<bar> \<le> 2 ^ 64 \<Longrightarrow> fp_in binary64 (Fin q)"
  using big_less_2_1024[of "\<bar>q\<bar>"] by (simp add: fp_in_def power_int_def)

lemma fround64_int_form: "\<exists>z. fround binary64 (of_int n) = of_int z"
proof (cases "\<bar>n\<bar> \<le> 2 ^ 53")
  case True
  then show ?thesis using fround64_int by blast
next
  case False
  define u where "u = ulp_exp binary64 (of_int n)"
  have n: "(2 :: rat) powi 53 \<le> \<bar>of_int n\<bar>" "0 < \<bar>of_int n :: rat\<bar>"
    using False by (auto simp: power_int_def)
  have "\<not> rexp \<bar>of_int n :: rat\<bar> < 53"
  proof
    assume "rexp \<bar>of_int n :: rat\<bar> < 53"
    then have "(2 :: rat) powi (rexp \<bar>of_int n :: rat\<bar> + 1) \<le> 2 powi 53"
      by (intro power_int_increasing) auto
    then show False using rexp_bounds(2)[OF n(2)] n(1) by linarith
  qed
  then have "0 \<le> u" by (simp add: u_def ulp_exp_def)
  then have "fround binary64 (of_int n) = of_int (rne (of_int n / 2 powi u) * 2 ^ nat u)"
    using n(2) by (simp add: fround_def power_int_def flip: u_def)
  then show ?thesis by blast
qed

lemma fround64_i64_bound:
  assumes "\<bar>n\<bar> \<le> 2 ^ 63"
  shows "\<bar>fround binary64 (of_int n)\<bar> \<le> 2 ^ 64"
proof -
  have r: "fround binary64 (2 ^ 63) = 2 ^ 63"
    by (rule fround_exact[of _ 1 63]) (auto simp: power_int_def)
  have "(of_int \<bar>n\<bar> :: rat) \<le> of_int (2 ^ 63)" using assms by (simp only: of_int_le_iff)
  then have "- (2 ^ 63) \<le> (of_int n :: rat)" "(of_int n :: rat) \<le> 2 ^ 63" by (auto simp: abs_le_iff)
  then have "- (2 ^ 63) \<le> fround binary64 (of_int n)" "fround binary64 (of_int n) \<le> 2 ^ 63"
    using fround64_between[of "- (2 ^ 63)" "2 ^ 63" "of_int n"] r fround_minus[of binary64 "2 ^ 63"]
    by simp_all
  then show ?thesis by (simp add: abs_le_iff)
qed

lemma f64_of_int_Fin:
  "\<bar>n\<bar> \<le> 2 ^ 63 \<Longrightarrow> f64_of_int n = Fin (fround binary64 (of_int n))"
  unfolding f64_of_int_def by (intro fp_of_rat_Fin fround64_i64_bound)

lemma f64_of_int_exact: "\<bar>n\<bar> \<le> 2 ^ 53 \<Longrightarrow> f64_of_int n = Fin (of_int n)"
  by (simp add: f64_of_int_Fin fround64_int)

subsection \<open>Comparing a cast integer with a value\<close>

text \<open>
  The cast rounds, so a strict comparison that succeeds is right and a non-strict one that should
  succeed does; both are exact up to \<open>2 ^ 53\<close>.
\<close>

lemma f64_cast_less:
  assumes "\<bar>n\<bar> \<le> 2 ^ 63" "fp_in binary64 v"
  shows "f64_of_int n < v \<Longrightarrow> Fin (of_int n) < v" "v < f64_of_int n \<Longrightarrow> v < Fin (of_int n)"
  using assms fround_le_rep[of binary64 _ "of_int n"] fround_ge_rep[of binary64 _ "of_int n"]
  by (cases v; fastforce simp: f64_of_int_Fin fp_in_def not_less[symmetric])+

lemma f64_cast_le:
  assumes "\<bar>n\<bar> \<le> 2 ^ 63" "fp_in binary64 v"
  shows "Fin (of_int n) \<le> v \<Longrightarrow> f64_of_int n \<le> v" "v \<le> Fin (of_int n) \<Longrightarrow> v \<le> f64_of_int n"
  using assms fround_le_rep[of binary64 _ "of_int n"] fround_ge_rep[of binary64 _ "of_int n"]
  by (cases v; fastforce simp: f64_of_int_Fin fp_in_def)+

subsection \<open>Differences below the machine epsilon\<close>

lemma rexp_ge:
  assumes "2 powi k \<le> x"
  shows "k \<le> rexp x"
proof (rule ccontr)
  have "(0 :: rat) < 2 powi k" by simp
  with assms have x: "0 < x" by linarith
  assume "\<not> k \<le> rexp x"
  then have "(2 :: rat) powi (rexp x + 1) \<le> 2 powi k" by (intro power_int_increasing) auto
  with rexp_bounds(2)[OF x] assms show False by linarith
qed

text \<open>A representable value of at least \<open>2 ^ k\<close> is a multiple of \<open>2 ^ (k - 52)\<close>.\<close>

lemma fround64_multiple:
  assumes rep: "fround binary64 q = q" and k: "2 powi k \<le> \<bar>q\<bar>"
  obtains m where "q = of_int m * 2 powi (k - 52)"
proof -
  define u where "u = ulp_exp binary64 q"
  have "k \<le> rexp \<bar>q\<bar>" using k by (rule rexp_ge)
  then have u: "k - 52 \<le> u" by (simp add: u_def ulp_exp_def)
  have "(0 :: rat) < 2 powi k" by simp
  then have "0 < \<bar>q\<bar>" using k by (rule less_le_trans)
  then have "q \<noteq> 0" by simp
  then obtain r where "q = of_int r * 2 powi u"
    using rep by (metis fround_def u_def)
  also have "(2 :: rat) powi u = of_int (2 ^ nat (u - (k - 52))) * 2 powi (k - 52)"
  proof -
    have "(2 :: rat) powi u = 2 powi ((u - (k - 52)) + (k - 52))" by simp
    also have "\<dots> = 2 powi (u - (k - 52)) * 2 powi (k - 52)"
      by (rule power_int_add) simp
    also have "(2 :: rat) powi (u - (k - 52)) = of_int (2 ^ nat (u - (k - 52)))"
      using u by (simp add: power_int_def)
    finally show ?thesis .
  qed
  finally show ?thesis
    using that[of "r * 2 ^ nat (u - (k - 52))"] by simp
qed

text \<open>An integer and a representable value less than the epsilon apart have an exact difference.\<close>

lemma fround64_near_exact:
  assumes rep: "fround binary64 q = q" and near: "\<bar>of_int z - q\<bar> < 1 / 2 ^ 52"
  shows "fround binary64 (of_int z - q) = of_int z - q"
proof (cases "z = 0")
  case True
  then show ?thesis using rep by (simp add: fround_minus)
next
  case False
  then have "(1 :: rat) \<le> \<bar>of_int z\<bar>" by (metis of_int_abs of_int_1_le_iff zabs_less_one_iff not_less)
  moreover have "\<bar>of_int z\<bar> \<le> \<bar>of_int z - q\<bar> + \<bar>q\<bar>"
    using abs_triangle_ineq[of "of_int z - q" q] by simp
  ultimately have "2 powi (- 1) \<le> \<bar>q\<bar>" using near by (simp add: power_int_minus)
  from fround64_multiple[OF rep this] obtain m where m: "q = of_int m * 2 powi (- 53)" by auto
  have d: "of_int z - q = of_int (z * 2 ^ 53 - m) * 2 powi (- 53)"
    by (simp add: m power_int_minus field_simps)
  have "\<bar>of_int (z * 2 ^ 53 - m) :: rat\<bar> * 2 powi (- 53) < 2 * 2 powi (- 53)"
    using near by (simp add: d abs_mult power_int_minus)
  then have "\<bar>of_int (z * 2 ^ 53 - m) :: rat\<bar> < of_int 2" by simp
  then have "\<bar>z * 2 ^ 53 - m\<bar> < 2" by (metis of_int_abs of_int_less_iff)
  then show ?thesis by (intro fround_exact_less[OF d]) auto
qed

lemma fround64_epsilon: "fround binary64 (1 / 2 ^ 52) = 1 / 2 ^ 52"
  by (rule fround_exact[of _ 1 "- 52"]) (auto simp: power_int_minus)

lemma fround64_less_epsilon:
  assumes rep: "fround binary64 q = q"
  shows "\<bar>fround binary64 (of_int z - q)\<bar> < 1 / 2 ^ 52 \<longleftrightarrow> \<bar>of_int z - q\<bar> < 1 / 2 ^ 52"
proof
  assume "\<bar>of_int z - q\<bar> < 1 / 2 ^ 52"
  then show "\<bar>fround binary64 (of_int z - q)\<bar> < 1 / 2 ^ 52"
    using fround64_near_exact[OF rep, of z] by simp
next
  assume *: "\<bar>fround binary64 (of_int z - q)\<bar> < 1 / 2 ^ 52"
  show "\<bar>of_int z - q\<bar> < 1 / 2 ^ 52"
  proof (rule ccontr)
    assume "\<not> ?thesis"
    then consider "1 / 2 ^ 52 \<le> of_int z - q" | "of_int z - q \<le> - (1 / 2 ^ 52)"
      by linarith
    then show False
    proof cases
      case 1
      from fround_ge_rep[OF _ fround64_epsilon this] * show False by simp
    next
      case 2
      have "fround binary64 (- (1 / 2 ^ 52)) = - (1 / 2 ^ 52)"
        using fround64_epsilon fround_minus[of binary64 "1 / 2 ^ 52"] by simp
      from fround_le_rep[OF _ this 2] * show False by simp
    qed
  qed
qed

text \<open>From magnitude 2 on, doubles are at least the epsilon apart.\<close>

lemma fround64_near_eq:
  assumes rep: "fround binary64 q = q" and z: "2 \<le> \<bar>z\<bar>"
  shows "\<bar>of_int z - q\<bar> < 1 / 2 ^ 52 \<longleftrightarrow> q = of_int z"
proof
  assume near: "\<bar>of_int z - q\<bar> < 1 / 2 ^ 52"
  have "(2 :: rat) \<le> \<bar>of_int z\<bar>" using z by (metis of_int_abs of_int_le_iff of_int_numeral)
  moreover have "\<bar>of_int z\<bar> \<le> \<bar>of_int z - q\<bar> + \<bar>q\<bar>"
    using abs_triangle_ineq[of "of_int z - q" q] by simp
  ultimately have "2 powi 0 \<le> \<bar>q\<bar>" using near by simp
  from fround64_multiple[OF rep this] obtain m where m: "q = of_int m * 2 powi (- 52)" by auto
  have d: "of_int z - q = of_int (z * 2 ^ 52 - m) * 2 powi (- 52)"
    by (simp add: m power_int_minus field_simps)
  have "\<bar>of_int (z * 2 ^ 52 - m) :: rat\<bar> * 2 powi (- 52) < 1 * 2 powi (- 52)"
    using near by (simp add: d abs_mult power_int_minus)
  then have "\<bar>of_int (z * 2 ^ 52 - m) :: rat\<bar> < of_int 1" by simp
  then have "\<bar>z * 2 ^ 52 - m\<bar> < 1" by (metis of_int_abs of_int_less_iff)
  then show "q = of_int z" using d by simp
qed simp

section \<open>Rounding errors\<close>

lemma fround_error:
  assumes p: "0 < fprec F" and x: "2 powi (femin F + int (fprec F) - 1) \<le> \<bar>x\<bar>"
  shows "\<bar>fround F x - x\<bar> \<le> \<bar>x\<bar> / 2 ^ fprec F"
proof -
  define u where "u = ulp_exp F x"
  have "(0 :: rat) < 2 powi (femin F + int (fprec F) - 1)" by simp
  with x have x0: "0 < \<bar>x\<bar>" by linarith
  have "femin F + int (fprec F) - 1 \<le> rexp \<bar>x\<bar>" using x by (rule rexp_ge)
  then have u: "u = rexp \<bar>x\<bar> - (int (fprec F) - 1)" by (simp add: u_def ulp_exp_def)
  have "fround F x - x = (of_int (rne (x / 2 powi u)) - x / 2 powi u) * 2 powi u"
    using x0 by (simp add: fround_def u_def left_diff_distrib)
  then have "\<bar>fround F x - x\<bar> = \<bar>of_int (rne (x / 2 powi u)) - x / 2 powi u\<bar> * 2 powi u"
    by (simp add: abs_mult)
  also have "\<dots> \<le> 1 / 2 * 2 powi u" by (intro mult_right_mono rne_error) simp
  also have "\<dots> = 2 powi (rexp \<bar>x\<bar> - int (fprec F))"
    using power_int_add_1[of "2 :: rat" "rexp \<bar>x\<bar> - int (fprec F)"] by (simp add: u algebra_simps)
  also have "\<dots> = 2 powi rexp \<bar>x\<bar> / 2 ^ fprec F" by (simp add: power_int_diff)
  also have "\<dots> \<le> \<bar>x\<bar> / 2 ^ fprec F" using rexp_bounds(1)[OF x0] by (rule divide_right_mono) simp
  finally show ?thesis .
qed

text \<open>Up to \<open>2 ^ 100\<close> nothing overflows.\<close>

lemma fp_of_rat_small:
  assumes F: "0 < fprec F" "femin F \<le> 100" "100 \<le> femax F" and x: "0 \<le> x" "x \<le> 2 ^ 100"
  shows "fp_of_rat F x = Fin (fround F x)" "0 \<le> fround F x"
proof -
  have "fround F (2 ^ 100) = 2 ^ 100"
    using F(1,2) by (intro fround_exact[of _ 1 100]) (auto simp: power_int_def)
  then have b: "0 \<le> fround F x" "fround F x \<le> 2 ^ 100"
    using x fround_nonneg fround_le_rep[OF F(1), of "2 ^ 100" x] by simp_all
  then show "0 \<le> fround F x" by simp
  have "(2 :: rat) ^ 100 = 2 powi 100" by (simp add: power_int_def)
  also have "\<dots> < 2 powi (femax F + 1)" using F(3) by (intro power_int_strict_increasing) auto
  finally show "fp_of_rat F x = Fin (fround F x)"
    using b by (simp add: fp_of_rat_def Let_def)
qed

lemma fp64_small:
  assumes "0 \<le> x" "x \<le> 2 ^ 100"
  shows "fp_of_rat binary64 x = Fin (fround binary64 x)" "0 \<le> fround binary64 x"
  using assms by (intro fp_of_rat_small; simp)+

lemma fp32_small:
  assumes "0 \<le> x" "x \<le> 2 ^ 100"
  shows "fp_of_rat binary32 x = Fin (fround binary32 x)" "0 \<le> fround binary32 x"
  using assms by (intro fp_of_rat_small; simp)+

lemma fround_error_small:
  assumes F: "0 < fprec F" "femin F + int (fprec F) - 1 \<le> - 44" and x: "x = 0 \<or> 1 / 10 ^ 13 \<le> x"
  shows "\<bar>fround F x - x\<bar> \<le> x / 2 ^ fprec F"
proof (cases "x = 0")
  case False
  have "(2 :: rat) powi (femin F + int (fprec F) - 1) \<le> 2 powi (- 44)"
    using F(2) by (intro power_int_increasing) auto
  also have "\<dots> \<le> 1 / 10 ^ 13" by (simp add: power_int_minus)
  finally show ?thesis using False x fround_error[OF F(1), of x] by simp
qed simp

lemma fround64_error: "x = 0 \<or> 1 / 10 ^ 13 \<le> x \<Longrightarrow> \<bar>fround binary64 x - x\<bar> \<le> x / 2 ^ 53"
  using fround_error_small[of binary64 x] by simp

lemma fround32_error: "x = 0 \<or> 1 / 10 ^ 13 \<le> x \<Longrightarrow> \<bar>fround binary32 x - x\<bar> \<le> x / 2 ^ 24"
  using fround_error_small[of binary32 x] by simp

text \<open>Relative errors add up.\<close>

lemma rel_trans:
  fixes v x y :: rat
  assumes "\<bar>x - v\<bar> \<le> v * d" "\<bar>y - x\<bar> \<le> x * e" "0 \<le> v" "0 \<le> e" "d + e + d * e \<le> f"
  shows "\<bar>y - v\<bar> \<le> v * f"
proof -
  have "x \<le> v + v * d" using assms(1) by (simp add: abs_le_iff)
  then have "x * e \<le> (v + v * d) * e" using assms(4) by (rule mult_right_mono)
  then have "\<bar>y - v\<bar> \<le> (v + v * d) * e + v * d"
    using abs_triangle_ineq[of "y - x" "x - v"] assms(1,2) by simp
  also have "\<dots> = v * (d + e + d * e)" by (simp add: algebra_simps)
  also have "\<dots> \<le> v * f" using assms(5,3) by (rule mult_left_mono)
  finally show ?thesis .
qed

lemma near64:
  fixes x y :: rat
  assumes "\<bar>x - y\<bar> \<le> y / 2 ^ 53" "0 \<le> y"
  shows "y / 2 \<le> x" "x \<le> 2 * y"
proof -
  have "y / 2 ^ 53 \<le> y / 2 ^ 1" using assms(2) by (intro divide_left_mono) auto
  then have "x - y \<le> y / 2" "- (x - y) \<le> y / 2" using assms(1) unfolding abs_le_iff by simp_all
  then show "y / 2 \<le> x" "x \<le> 2 * y" using assms(2) by linarith+
qed

end
