(* ===== verification/Text.thy ===== *)
theory Text
  imports Prelude
begin

text \<open>
  Strings as the crates use them: a Rust \<^verbatim>\<open>String\<close> is the list of its UTF-8 bytes, a \<open>string\<close> whose
  characters are bytes. The theory holds the conversions between strings and byte vectors, decimal
  and hexadecimal formatting, \<^verbatim>\<open>from_utf8_lossy\<close>, trimming, prefixes and lines, each after the
  definition in the standard library, with the facts that make formatted text readable back.
\<close>

section \<open>Bytes and strings\<close>

definition as_bytes :: "string \<Rightarrow> bytes" where
  "as_bytes s = map (\<lambda>c. of_nat (of_char c)) s"

definition string_of_bytes :: "bytes \<Rightarrow> string" where
  "string_of_bytes bs = map (\<lambda>b. char_of (unat b)) bs"

lemma unat_byte_of_char [simp]: "unat (of_nat (of_char c) :: u8) = of_char c"
  by (simp add: unat_of_nat)

lemma string_of_bytes_as_bytes [simp]: "string_of_bytes (as_bytes s) = s"
  by (simp add: as_bytes_def string_of_bytes_def comp_def)

lemma as_bytes_string_of_bytes [simp]: "as_bytes (string_of_bytes bs) = bs"
proof -
  have "of_nat (of_char (char_of (unat b) :: char)) = b" for b :: u8
    using unsigned_less[of b, where 'a = nat] by (simp add: of_char_of)
  then show ?thesis by (simp add: as_bytes_def string_of_bytes_def comp_def)
qed

lemma length_as_bytes [simp]: "length (as_bytes s) = length s"
  by (simp add: as_bytes_def)

lemma length_string_of_bytes [simp]: "length (string_of_bytes bs) = length bs"
  by (simp add: string_of_bytes_def)

lemma as_bytes_append [simp]: "as_bytes (s @ t) = as_bytes s @ as_bytes t"
  by (simp add: as_bytes_def)

lemma as_bytes_inject [simp]: "as_bytes s = as_bytes t \<longleftrightarrow> s = t"
  by (metis string_of_bytes_as_bytes)

section \<open>Numbers in decimal\<close>

fun show_nat :: "nat \<Rightarrow> string" where
  "show_nat n =
     (if n < 10 then [char_of (48 + n)] else show_nat (n div 10) @ [char_of (48 + n mod 10)])"

declare show_nat.simps [simp del]

definition show_word :: "'a::len word \<Rightarrow> string" where
  "show_word w = show_nat (unat w)"

definition show_int :: "int \<Rightarrow> string" where
  "show_int i = (if i < 0 then ''-'' @ show_nat (nat (- i)) else show_nat (nat i))"

definition is_digit :: "char \<Rightarrow> bool" where
  "is_digit c \<longleftrightarrow> 48 \<le> (of_char c :: nat) \<and> (of_char c :: nat) \<le> 57"

definition digit_val :: "char \<Rightarrow> nat" where
  "digit_val c = of_char c - 48"

definition read_nat :: "string \<Rightarrow> nat" where
  "read_nat s = foldl (\<lambda>a c. 10 * a + digit_val c) 0 s"

lemma digit_char [simp]:
  "d < 10 \<Longrightarrow> is_digit (char_of (48 + d))" "d < 10 \<Longrightarrow> digit_val (char_of (48 + d)) = d"
  by (simp_all add: is_digit_def digit_val_def of_char_of)

lemma read_show_nat [simp]: "read_nat (show_nat n) = n"
proof (induction n rule: show_nat.induct)
  case (1 n)
  show ?case
  proof (cases "n < 10")
    case True
    then show ?thesis by (simp add: show_nat.simps[of n] read_nat_def)
  next
    case False
    with 1 have "foldl (\<lambda>a c. 10 * a + digit_val c) 0 (show_nat (n div 10)) = n div 10"
      by (simp add: read_nat_def)
    with False show ?thesis by (simp add: show_nat.simps[of n] read_nat_def)
  qed
qed

lemma show_nat_inject [simp]: "show_nat m = show_nat n \<longleftrightarrow> m = n"
  by (metis read_show_nat)

lemma read_nat_zeros: "read_nat (replicate k (CHR ''0'') @ s) = read_nat s"
  by (induction k) (simp_all add: read_nat_def digit_val_def)

lemma show_nat_digits: "list_all is_digit (show_nat n)"
proof (induction n rule: show_nat.induct)
  case (1 n)
  then show ?case by (cases "n < 10") (simp_all add: show_nat.simps[of n])
qed

lemma show_nat_not_Nil [simp]: "show_nat n \<noteq> []"
  by (simp add: show_nat.simps[of n])

lemma show_word_inject [simp]: "show_word v = show_word w \<longleftrightarrow> v = w"
  by (simp add: show_word_def word_unat_eq_iff)

lemma show_word_digits: "list_all is_digit (show_word w)"
  by (simp add: show_word_def show_nat_digits)

text \<open>A digit string is delimited by the first character that is no digit.\<close>

lemma digits_then_sep:
  assumes "list_all is_digit s" "list_all is_digit t" "\<not> is_digit c" "\<not> is_digit d"
  shows "s @ c # x = t @ d # y \<longleftrightarrow> s = t \<and> c = d \<and> x = y"
  using assms
proof (induction s arbitrary: t)
  case Nil
  then show ?case by (cases t) auto
next
  case (Cons a s)
  then show ?case by (cases t) auto
qed

section \<open>Bytes in hexadecimal\<close>

definition hex_digit :: "nat \<Rightarrow> char" where
  "hex_digit n = (if n < 10 then char_of (48 + n) else char_of (87 + n))"

text \<open>\<^verbatim>\<open>{:x}\<close> of a digest: two digits per byte.\<close>

definition hex_byte :: "u8 \<Rightarrow> string" where
  "hex_byte b = [hex_digit (unat b div 16), hex_digit (unat b mod 16)]"

definition show_hex :: "bytes \<Rightarrow> string" where
  "show_hex bs = concat (map hex_byte bs)"

lemma hex_digit_inject:
  assumes "m < 16" "n < 16"
  shows "hex_digit m = hex_digit n \<longleftrightarrow> m = n"
proof
  assume "hex_digit m = hex_digit n"
  then have "(of_char (hex_digit m) :: nat) = of_char (hex_digit n)" by simp
  then show "m = n" using assms by (auto simp: hex_digit_def of_char_of split: if_splits)
qed simp

lemma hex_byte_inject [simp]: "hex_byte a = hex_byte b \<longleftrightarrow> a = b"
proof -
  have "unat a < 256" "unat b < 256"
    using unsigned_less[of a, where 'a = nat] unsigned_less[of b, where 'a = nat] by simp_all
  then have "hex_byte a = hex_byte b \<longleftrightarrow> unat a div 16 = unat b div 16 \<and> unat a mod 16 = unat b mod 16"
    by (simp add: hex_byte_def hex_digit_inject)
  also have "\<dots> \<longleftrightarrow> unat a = unat b" by (metis div_mult_mod_eq)
  finally show ?thesis by (simp add: word_unat_eq_iff)
qed

lemma length_hex_byte [simp]: "length (hex_byte b) = 2"
  by (simp add: hex_byte_def)

lemma length_show_hex [simp]: "length (show_hex bs) = 2 * length bs"
  by (induction bs) (auto simp: show_hex_def)

lemma show_hex_inject [simp]: "show_hex a = show_hex b \<longleftrightarrow> a = b"
proof
  assume "show_hex a = show_hex b"
  then show "a = b"
  proof (induction a arbitrary: b)
    case Nil
    then have "length (show_hex b) = 0" by (simp add: show_hex_def)
    then show ?case by (simp del: length_show_hex add: length_show_hex[of b])
  next
    case (Cons x a)
    from Cons.prems have "length (show_hex (x # a)) = length (show_hex b)" by simp
    then obtain y c where b: "b = y # c" by (cases b) auto
    with Cons.prems have "hex_byte x @ show_hex a = hex_byte y @ show_hex c"
      by (simp add: show_hex_def)
    then show ?case using Cons.IH b by simp
  qed
qed simp

section \<open>Lossy UTF-8 decoding\<close>

text \<open>
  \<^verbatim>\<open>String::from_utf8_lossy\<close> walks over the input: a well-formed sequence is copied, and the
  longest prefix of an ill-formed one that could have begun a character becomes one replacement
  character U+FFFD. \<open>utf8_unit\<close> is one step: how many bytes it consumes and whether they are a
  character. A byte past the end reads as 0.
\<close>

definition byte_at :: "bytes \<Rightarrow> nat \<Rightarrow> u8" where
  "byte_at bs i = (if i < length bs then bs ! i else 0)"

definition is_cont :: "u8 \<Rightarrow> bool" where
  "is_cont b \<longleftrightarrow> 0x80 \<le> b \<and> b \<le> 0xBF"

definition utf8_width :: "u8 \<Rightarrow> nat" where
  "utf8_width b = (if b < 0x80 then 1 else if 0xC2 \<le> b \<and> b \<le> 0xDF then 2
     else if 0xE0 \<le> b \<and> b \<le> 0xEF then 3 else if 0xF0 \<le> b \<and> b \<le> 0xF4 then 4 else 0)"

definition utf8_second :: "u8 \<Rightarrow> u8 \<Rightarrow> bool" where
  "utf8_second b c \<longleftrightarrow>
     (if b = 0xE0 then 0xA0 \<le> c \<and> c \<le> 0xBF
      else if b = 0xED then 0x80 \<le> c \<and> c \<le> 0x9F
      else if b = 0xF0 then 0x90 \<le> c \<and> c \<le> 0xBF
      else if b = 0xF4 then 0x80 \<le> c \<and> c \<le> 0x8F
      else is_cont c)"

definition utf8_unit :: "bytes \<Rightarrow> nat \<times> bool" where
  "utf8_unit bs = (let b = byte_at bs 0; w = utf8_width b in
     if w = 1 then (1, True)
     else if w = 0 \<or> \<not> utf8_second b (byte_at bs 1) then (1, False)
     else if w = 2 then (2, True)
     else if \<not> is_cont (byte_at bs 2) then (2, False)
     else if w = 3 then (3, True)
     else if \<not> is_cont (byte_at bs 3) then (3, False)
     else (4, True))"

definition replacement_char :: bytes where
  "replacement_char = [0xEF, 0xBF, 0xBD]"

lemma cont_pos: "is_cont c \<Longrightarrow> c \<noteq> 0" "utf8_second b c \<Longrightarrow> c \<noteq> 0"
  by (auto simp: is_cont_def utf8_second_def split: if_splits)

lemma byte_at_nonzero: "byte_at bs i \<noteq> 0 \<Longrightarrow> i < length bs"
  by (simp add: byte_at_def split: if_splits)

lemma utf8_unit_pos [simp]: "0 < fst (utf8_unit bs)"
  by (simp add: utf8_unit_def Let_def)

lemma utf8_unit_le:
  assumes "bs \<noteq> []"
  shows "fst (utf8_unit bs) \<le> length bs"
proof -
  have "1 \<le> length bs" using assms by (cases bs) auto
  moreover have "2 \<le> length bs" if "utf8_second b (byte_at bs 1)" for b
    using byte_at_nonzero[of bs 1] cont_pos(2)[OF that] by simp
  moreover have "Suc i \<le> length bs" if "is_cont (byte_at bs i)" for i
    using byte_at_nonzero[of bs i] cont_pos(1)[OF that] by simp
  from this[of 2] this[of 3] have
    "is_cont (byte_at bs 2) \<Longrightarrow> 3 \<le> length bs" "is_cont (byte_at bs 3) \<Longrightarrow> 4 \<le> length bs" by simp_all
  ultimately show ?thesis by (auto simp: utf8_unit_def Let_def)
qed

lemma utf8_width_cases: "utf8_width b \<in> {0, 1, 2, 3, 4}"
  by (simp add: utf8_width_def)

lemma utf8_unit_True_iff:
  "utf8_unit bs = (n, True) \<longleftrightarrow> n = utf8_width (byte_at bs 0) \<and> 0 < n
     \<and> (1 < n \<longrightarrow> utf8_second (byte_at bs 0) (byte_at bs 1))
     \<and> (2 < n \<longrightarrow> is_cont (byte_at bs 2)) \<and> (3 < n \<longrightarrow> is_cont (byte_at bs 3))"
  using utf8_width_cases[of "byte_at bs 0"] by (auto simp: utf8_unit_def Let_def)

lemma utf8_unit_append:
  assumes u: "utf8_unit bs = (n, True)" and bs: "bs \<noteq> []"
  shows "utf8_unit (take n bs @ cs) = (n, True)"
proof -
  have "n \<le> length bs" using u utf8_unit_le[OF bs] by simp
  then have at: "byte_at (take n bs @ cs) i = byte_at bs i" if "i < n" for i
    using that by (simp add: byte_at_def nth_append)
  show ?thesis
    using u at[of 0] at[of 1] at[of 2] at[of 3] by (simp add: utf8_unit_True_iff)
qed

lemma utf8_unit_dec: "bs \<noteq> [] \<Longrightarrow> (n, ok) = utf8_unit bs \<Longrightarrow> length bs - n < length bs"
  by (metis diff_less fst_conv length_greater_0_conv utf8_unit_pos)

function utf8_lossy :: "bytes \<Rightarrow> bytes" where
  "utf8_lossy bs = (if bs = [] then [] else
     (case utf8_unit bs of (n, ok) \<Rightarrow>
       (if ok then take n bs else replacement_char) @ utf8_lossy (drop n bs)))"
  by pat_completeness auto
termination
  by (relation "measure length") (auto dest: utf8_unit_dec)

function utf8_valid :: "bytes \<Rightarrow> bool" where
  "utf8_valid bs = (if bs = [] then True else
     (case utf8_unit bs of (n, ok) \<Rightarrow> if ok then utf8_valid (drop n bs) else False))"
  by pat_completeness auto
termination
  by (relation "measure length") (auto dest: utf8_unit_dec)

declare utf8_lossy.simps [simp del] utf8_valid.simps [simp del]

definition from_utf8_lossy :: "bytes \<Rightarrow> string" where
  "from_utf8_lossy bs = string_of_bytes (utf8_lossy bs)"

text \<open>Valid text decodes to itself, decoding always yields valid text, and so it is idempotent.\<close>

lemma utf8_lossy_valid: "utf8_valid bs \<Longrightarrow> utf8_lossy bs = bs"
proof (induction bs rule: utf8_lossy.induct)
  case (1 bs)
  show ?case
  proof (cases "bs = []")
    case False
    with "1.prems" obtain n where u: "utf8_unit bs = (n, True)" and "utf8_valid (drop n bs)"
      by (subst (asm) utf8_valid.simps) (auto split: prod.splits if_splits)
    with "1.IH"[OF False, of n] have "utf8_lossy (drop n bs) = drop n bs" by simp
    with u False show ?thesis by (subst utf8_lossy.simps) simp
  qed (simp add: utf8_lossy.simps)
qed

lemma utf8_valid_unit:
  "utf8_unit bs = (n, True) \<Longrightarrow> bs \<noteq> [] \<Longrightarrow> utf8_valid cs \<Longrightarrow> utf8_valid (take n bs @ cs)"
  using utf8_unit_append[of bs n cs] utf8_unit_le[of bs]
  by (subst utf8_valid.simps) (simp add: min_def)

lemma utf8_valid_replacement: "utf8_valid cs \<Longrightarrow> utf8_valid (replacement_char @ cs)"
proof -
  assume "utf8_valid cs"
  moreover have "utf8_unit replacement_char = (3, True)"
    by (simp add: replacement_char_def utf8_unit_True_iff byte_at_def utf8_width_def
        utf8_second_def is_cont_def)
  ultimately have "utf8_valid (take 3 replacement_char @ cs)"
    by (intro utf8_valid_unit) (simp_all add: replacement_char_def)
  then show ?thesis by (simp add: replacement_char_def)
qed

lemma utf8_valid_lossy: "utf8_valid (utf8_lossy bs)"
proof (induction bs rule: utf8_lossy.induct)
  case (1 bs)
  show ?case
  proof (cases "bs = []")
    case True
    then show ?thesis by (simp add: utf8_lossy.simps utf8_valid.simps)
  next
    case False
    obtain n ok where u: "utf8_unit bs = (n, ok)" by fastforce
    with "1.IH"[OF False, of n] have "utf8_valid (utf8_lossy (drop n bs))" by simp
    then have "utf8_valid ((if ok then take n bs else replacement_char) @ utf8_lossy (drop n bs))"
      using u False utf8_valid_unit utf8_valid_replacement by simp
    then show ?thesis using u False by (subst utf8_lossy.simps) simp
  qed
qed

lemma utf8_lossy_idem: "utf8_lossy (utf8_lossy bs) = utf8_lossy bs"
  by (simp add: utf8_lossy_valid utf8_valid_lossy)

lemma utf8_valid_ascii: "list_all (\<lambda>b. b < 0x80) bs \<Longrightarrow> utf8_valid bs"
proof (induction bs)
  case (Cons b bs)
  then have "utf8_unit (b # bs) = (1, True)"
    by (simp add: utf8_unit_True_iff byte_at_def utf8_width_def)
  with Cons show ?case by (subst utf8_valid.simps) simp
qed (simp add: utf8_valid.simps)

lemma utf8_valid_append: "utf8_valid bs \<Longrightarrow> utf8_valid cs \<Longrightarrow> utf8_valid (bs @ cs)"
proof (induction bs rule: utf8_valid.induct)
  case (1 bs)
  show ?case
  proof (cases "bs = []")
    case False
    with "1.prems" obtain n where u: "utf8_unit bs = (n, True)" and "utf8_valid (drop n bs)"
      by (subst (asm) utf8_valid.simps) (auto split: prod.splits if_splits)
    with "1.IH"[OF False, of n True] "1.prems"(2) have "utf8_valid (drop n bs @ cs)" by simp
    from utf8_valid_unit[OF u False this] show ?thesis
      by (simp only: append_assoc[symmetric] append_take_drop_id)
  qed (use "1.prems" in simp)
qed

lemma from_utf8_lossy_valid: "utf8_valid (as_bytes s) \<Longrightarrow> from_utf8_lossy (as_bytes s) = s"
  by (simp add: from_utf8_lossy_def utf8_lossy_valid)

section \<open>Trimming, prefixes, lines\<close>

text \<open>The UTF-8 encodings of the characters with the Unicode property \<^verbatim>\<open>White_Space\<close>.\<close>

definition white_space :: "string list" where
  "white_space = map string_of_bytes
     ([[9], [10], [11], [12], [13], [32], [0xC2, 0x85], [0xC2, 0xA0], [0xE1, 0x9A, 0x80],
       [0xE2, 0x80, 0xA8], [0xE2, 0x80, 0xA9], [0xE2, 0x80, 0xAF], [0xE2, 0x81, 0x9F],
       [0xE3, 0x80, 0x80]] @ map (\<lambda>k. [0xE2, 0x80, k])
       [0x80, 0x81, 0x82, 0x83, 0x84, 0x85, 0x86, 0x87, 0x88, 0x89, 0x8A])"

definition strip_prefix :: "'a list \<Rightarrow> 'a list \<Rightarrow> 'a list option" where
  "strip_prefix p s = (if take (length p) s = p then Some (drop (length p) s) else None)"

lemma strip_prefix_append [simp]: "strip_prefix p (p @ s) = Some s"
  by (simp add: strip_prefix_def)

lemma strip_prefix_Some: "strip_prefix p s = Some t \<longleftrightarrow> s = p @ t"
  by (auto simp: strip_prefix_def) (metis append_take_drop_id)

text \<open>Drop members of \<open>ws\<close> from the front; members are not empty where it is used.\<close>

function strip_seqs :: "'a list list \<Rightarrow> 'a list \<Rightarrow> 'a list" where
  "strip_seqs ws s = (case find (\<lambda>w. w \<noteq> [] \<and> take (length w) s = w) ws of
     None \<Rightarrow> s | Some w \<Rightarrow> strip_seqs ws (drop (length w) s))"
  by pat_completeness auto
termination
  by (relation "measure (\<lambda>(ws, s). length s)") (auto simp: find_Some_iff intro!: diff_less)

declare strip_seqs.simps [simp del]

definition trim_start :: "string \<Rightarrow> string" where
  "trim_start s = strip_seqs white_space s"

definition trim_end :: "string \<Rightarrow> string" where
  "trim_end s = rev (strip_seqs (map rev white_space) (rev s))"

definition trim :: "string \<Rightarrow> string" where
  "trim s = trim_end (trim_start s)"

lemma strip_seqs_none:
  assumes "s \<noteq> []" and "list_all (\<lambda>w. w = [] \<or> hd w \<noteq> hd s) ws"
  shows "strip_seqs ws s = s"
proof -
  have "find (\<lambda>w. w \<noteq> [] \<and> take (length w) s = w) ws = None"
    unfolding find_None_iff
  proof (intro notI)
    assume "\<exists>w. w \<in> set ws \<and> w \<noteq> [] \<and> take (length w) s = w"
    then obtain w where w: "w \<in> set ws" "w \<noteq> []" "take (length w) s = w" by blast
    from w(3) assms(1) w(2) have "hd w = hd s" by (metis hd_take length_greater_0_conv)
    with w(1,2) assms(2) show False by (auto simp: list_all_iff)
  qed
  then show ?thesis by (simp add: strip_seqs.simps)
qed

text \<open>A number on a line of its own is read without its newline.\<close>

lemma trim_number:
  assumes "list_all is_digit s" and "s \<noteq> []"
  shows "trim (s @ [CHR 0x0A]) = s"
proof -
  have hl: "is_digit (hd s)" "is_digit (last s)" using assms by (auto simp: list_all_iff)
  have ws: "list_all (\<lambda>w. \<not> is_digit (hd w) \<and> \<not> is_digit (last w)) white_space"
    by (simp add: white_space_def string_of_bytes_def is_digit_def)
  have "strip_seqs white_space (s @ [CHR 0x0A]) = s @ [CHR 0x0A]"
    using assms(2) hl ws by (intro strip_seqs_none) (auto simp: list_all_iff)
  moreover have "strip_seqs (map rev white_space) (CHR 0x0A # rev s) = strip_seqs (map rev white_space) (rev s)"
  proof -
    define vs where "vs = map rev (drop 2 white_space)"
    have "map rev white_space = [CHR 0x09] # [CHR 0x0A] # vs"
      by (simp add: vs_def white_space_def string_of_bytes_def char_of_eq_iff take_bit_eq_mod)
    then show ?thesis by (subst strip_seqs.simps) simp
  qed
  moreover have "strip_seqs (map rev white_space) (rev s) = rev s"
    using assms(2) hl ws by (intro strip_seqs_none) (auto simp: list_all_iff hd_rev)
  ultimately show ?thesis by (simp add: trim_def trim_start_def trim_end_def)
qed

text \<open>\<^verbatim>\<open>trim_end_matches\<close> with a character.\<close>

definition trim_end_char :: "char \<Rightarrow> string \<Rightarrow> string" where
  "trim_end_char c s = rev (dropWhile (\<lambda>d. d = c) (rev s))"

lemma trim_end_char_last: "trim_end_char c s = [] \<or> last (trim_end_char c s) \<noteq> c"
  using hd_dropWhile[of "\<lambda>d. d = c" "rev s"] by (auto simp: trim_end_char_def last_rev)

text \<open>\<^verbatim>\<open>lines\<close>: the pieces up to each newline, without it and one carriage return before it.\<close>

fun split_inclusive :: "string \<Rightarrow> string list" where
  "split_inclusive [] = []"
| "split_inclusive (c # s) = (if c = CHR 0x0A then [c] # split_inclusive s
     else case split_inclusive s of [] \<Rightarrow> [[c]] | l # ls \<Rightarrow> (c # l) # ls)"

definition chomp :: "string \<Rightarrow> string" where
  "chomp l = (if l \<noteq> [] \<and> last l = CHR 0x0A
     then (let m = butlast l in if m \<noteq> [] \<and> last m = CHR 0x0D then butlast m else m)
     else l)"

definition str_lines :: "string \<Rightarrow> string list" where
  "str_lines s = map chomp (split_inclusive s)"

lemma concat_split_inclusive: "concat (split_inclusive s) = s"
  by (induction s) (auto split: list.splits)

lemma split_inclusive_line:
  "CHR 0x0A \<notin> set l \<Longrightarrow> split_inclusive (l @ CHR 0x0A # s) = (l @ [CHR 0x0A]) # split_inclusive s"
  by (induction l) auto

lemma str_lines_line:
  assumes "CHR 0x0A \<notin> set l" and "l = [] \<or> last l \<noteq> CHR 0x0D"
  shows "str_lines (l @ CHR 0x0A # s) = l # str_lines s"
  using assms by (auto simp: str_lines_def split_inclusive_line chomp_def Let_def)

lemma string_of_bytes_append [simp]: "string_of_bytes (bs @ cs) = string_of_bytes bs @ string_of_bytes cs"
  by (simp add: string_of_bytes_def)

section \<open>Paths\<close>

text \<open>
  \<^verbatim>\<open>Path::file_stem\<close>: the last component, unless it is \<open>..\<close>, without its extension. A name whose only
  dot is its first character has none.
\<close>

fun split_on :: "char \<Rightarrow> string \<Rightarrow> string list" where
  "split_on c [] = [[]]"
| "split_on c (d # s) = (if d = c then [] # split_on c s
     else case split_on c s of [] \<Rightarrow> [[d]] | f # fs \<Rightarrow> (d # f) # fs)"

definition path_file_name :: "string \<Rightarrow> string option" where
  "path_file_name p =
     (let comps = filter (\<lambda>c. c \<noteq> [] \<and> c \<noteq> ''.'') (split_on (CHR ''/'') p)
      in if comps = [] \<or> last comps = ''..'' then None else Some (last comps))"

definition path_file_stem :: "string \<Rightarrow> string option" where
  "path_file_stem p =
     map_option (\<lambda>n. let before = rev (drop 1 (dropWhile (\<lambda>c. c \<noteq> CHR ''.'') (rev n)))
                     in if before = [] then n else before) (path_file_name p)"

section \<open>Texts\<close>

text \<open>
  The invariant of Rust's \<^verbatim>\<open>String\<close>: its bytes are valid UTF-8. What is put together from texts,
  numbers and decoded bytes is text, and trimming removes whole characters only.
\<close>

definition is_text :: "string \<Rightarrow> bool" where
  "is_text s \<longleftrightarrow> utf8_valid (as_bytes s)"

named_theorems text_intros "what makes a text"

lemma is_text_Nil [simp]: "is_text []"
  by (simp add: is_text_def as_bytes_def utf8_valid.simps)

lemma is_text_Cons [simp]:
  assumes "(of_char c :: nat) < 128"
  shows "is_text (c # s) \<longleftrightarrow> is_text s"
proof -
  let ?b = "of_nat (of_char c) :: u8"
  have "?b < 0x80" using assms by (simp add: word_less_nat_alt)
  then have "utf8_unit (?b # as_bytes s) = (1, True)"
    by (simp add: utf8_unit_True_iff byte_at_def utf8_width_def)
  then have "utf8_valid (?b # as_bytes s) \<longleftrightarrow> utf8_valid (as_bytes s)" by (subst utf8_valid.simps) simp
  then show ?thesis by (simp add: is_text_def as_bytes_def)
qed

lemma is_text_append [text_intros]: "is_text s \<Longrightarrow> is_text t \<Longrightarrow> is_text (s @ t)"
  by (simp add: is_text_def utf8_valid_append)

lemma is_text_lossy [text_intros]: "is_text (from_utf8_lossy bs)"
  by (simp add: is_text_def from_utf8_lossy_def utf8_valid_lossy)

lemma is_text_show_nat [text_intros]: "is_text (show_nat n)"
proof -
  have "is_text s" if "list_all is_digit s" for s
    using that by (induction s) (auto simp: is_digit_def)
  then show ?thesis using show_nat_digits by blast
qed

lemma is_text_show_word [text_intros]: "is_text (show_word w)"
  by (simp add: show_word_def is_text_show_nat)

lemma utf8_valid_Nil [simp]: "utf8_valid []"
  by (simp add: utf8_valid.simps)

text \<open>A valid string can be cut where a character starts.\<close>

lemma utf8_valid_cut:
  assumes "utf8_valid (as @ b # bs)" and "\<not> is_cont b"
  shows "utf8_valid as \<and> utf8_valid (b # bs)"
  using assms(1)
proof (induction as rule: utf8_valid.induct)
  case (1 as)
  show ?case
  proof (cases "as = []")
    case False
    let ?s = "as @ b # bs"
    obtain n where u: "utf8_unit ?s = (n, True)" and v: "utf8_valid (drop n ?s)"
      using "1.prems" by (subst (asm) utf8_valid.simps) (auto split: prod.splits if_splits)
    have n: "n \<le> length as"
    proof (rule ccontr)
      assume "\<not> n \<le> length as"
      moreover have "byte_at ?s (length as) = b" by (simp add: byte_at_def)
      moreover have "is_cont c" if "utf8_second a c" for a c
        using that unfolding utf8_second_def is_cont_def by (auto simp: word_le_nat_alt split: if_splits)
      moreover have "length as = 1 \<or> length as = 2 \<or> length as = 3"
      proof -
        have "n \<le> 4" using u utf8_width_cases[of "byte_at ?s 0"] by (auto simp: utf8_unit_True_iff)
        moreover have "0 < length as" using False by simp
        ultimately show ?thesis using \<open>\<not> n \<le> length as\<close> by presburger
      qed
      ultimately show False using u assms(2) unfolding utf8_unit_True_iff by auto
    qed
    then have v': "utf8_valid (drop n as @ b # bs)" using v by simp
    have "take n as @ [] = take n ?s" using n by simp
    then have ua: "utf8_unit as = (n, True)"
      using utf8_unit_append[OF u, of "drop n as"] n by simp
    have "utf8_valid (drop n as) \<and> utf8_valid (b # bs)" by (rule "1.IH"[OF False ua[symmetric] TrueI v'])
    then show ?thesis using ua False by (subst utf8_valid.simps) simp
  qed (use "1.prems" in simp)
qed

lemma utf8_valid_rest: "utf8_valid as \<Longrightarrow> utf8_valid (as @ bs) \<Longrightarrow> utf8_valid bs"
proof (induction as rule: utf8_valid.induct)
  case (1 as)
  show ?case
  proof (cases "as = []")
    case False
    obtain n where u: "utf8_unit as = (n, True)" and v: "utf8_valid (drop n as)"
      using "1.prems"(1) False by (subst (asm) utf8_valid.simps) (auto split: prod.splits if_splits)
    have n: "n \<le> length as" using utf8_unit_le[OF False] u by simp
    have "utf8_unit (as @ bs) = (n, True)"
      using utf8_unit_append[OF u False, of "drop n as @ bs"] by (simp flip: append_assoc)
    then have "utf8_valid (drop n as @ bs)"
      using "1.prems"(2) False n by (subst (asm) utf8_valid.simps) simp
    then show ?thesis by (rule "1.IH"[OF False u[symmetric] TrueI v])
  qed (use "1.prems" in simp)
qed

lemma strip_seqs_inv:
  assumes "\<And>w s. w \<in> set ws \<Longrightarrow> P (w @ s) \<Longrightarrow> P s" and "P s"
  shows "P (strip_seqs ws s)"
  using assms(2)
proof (induction "length s" arbitrary: s rule: less_induct)
  case less
  show ?case
  proof (cases "find (\<lambda>w. w \<noteq> [] \<and> take (length w) s = w) ws")
    case None
    then show ?thesis using less.prems by (simp add: strip_seqs.simps)
  next
    case (Some w)
    then have w: "w \<in> set ws" "w \<noteq> []" "take (length w) s = w" by (auto simp: find_Some_iff)
    then have s: "s = w @ drop (length w) s" by (metis append_take_drop_id)
    then have "P (drop (length w) s)" using assms(1)[OF w(1)] less.prems by metis
    moreover have "length (drop (length w) s) < length s"
      using w(2) s by (metis length_append length_greater_0_conv less_add_same_cancel2)
    ultimately have "P (strip_seqs ws (drop (length w) s))" by (rule less.hyps[rotated])
    then show ?thesis using Some by (simp add: strip_seqs.simps)
  qed
qed

lemma string_of_bytes_Nil_iff [simp]: "string_of_bytes bs = [] \<longleftrightarrow> bs = []"
  by (simp add: string_of_bytes_def)

lemma white_space_text:
  assumes "w \<in> set white_space"
  shows "utf8_valid (as_bytes w)" "\<exists>b bs. as_bytes w = b # bs \<and> \<not> is_cont b"
proof -
  have "list_all (\<lambda>w. utf8_unit (as_bytes w) = (length w, True) \<and> \<not> is_cont (hd (as_bytes w)) \<and> w \<noteq> []) white_space"
    by (simp add: white_space_def utf8_unit_True_iff utf8_width_def byte_at_def utf8_second_def is_cont_def)
  then have w: "utf8_unit (as_bytes w) = (length w, True)" "\<not> is_cont (hd (as_bytes w))" "w \<noteq> []"
    using assms by (auto simp: list_all_iff)
  then show "\<exists>b bs. as_bytes w = b # bs \<and> \<not> is_cont b" by (cases "as_bytes w") (auto simp: as_bytes_def)
  show "utf8_valid (as_bytes w)" using w by (subst utf8_valid.simps) simp
qed

lemma is_text_trim [text_intros]:
  assumes "is_text s"
  shows "is_text (trim s)"
proof -
  have "is_text (trim_start s)"
    unfolding trim_start_def
  proof (rule strip_seqs_inv[where P = is_text, OF _ assms])
    fix w s assume "w \<in> set white_space" "is_text (w @ s)"
    then have "utf8_valid (as_bytes w)" "utf8_valid (as_bytes w @ as_bytes s)"
      using white_space_text(1) by (simp_all add: is_text_def)
    then show "is_text s" unfolding is_text_def by (rule utf8_valid_rest)
  qed
  then have "is_text (rev (rev (trim_start s)))" by simp
  then have "is_text (rev (strip_seqs (map rev white_space) (rev (trim_start s))))"
  proof (rule strip_seqs_inv[where P = "\<lambda>s. is_text (rev s)", rotated])
    fix v s assume "v \<in> set (map rev white_space)" "is_text (rev (v @ s))"
    then obtain w where w: "w \<in> set white_space" "is_text (rev s @ w)" by auto
    then obtain b bs where "as_bytes w = b # bs" "\<not> is_cont b" using white_space_text(2) by blast
    with w(2) show "is_text (rev s)" using utf8_valid_cut[of "as_bytes (rev s)" b bs] by (simp add: is_text_def)
  qed
  then show ?thesis by (simp add: trim_def trim_end_def)
qed

lemma is_text_trim_end_char [text_intros]:
  assumes "is_text s" and "(of_char c :: nat) < 128"
  shows "is_text (trim_end_char c s)"
proof -
  have "is_text (rev (dropWhile (\<lambda>d. d = c) r))" if "is_text (rev r)" for r
    using that
  proof (induction r)
    case (Cons d r)
    have "is_text (rev r)" if "d = c"
    proof -
      have "\<not> is_cont (of_nat (of_char c))" using assms(2) by (simp add: is_cont_def word_le_nat_alt)
      then show ?thesis using Cons.prems that utf8_valid_cut[of "as_bytes (rev r)"] by (simp add: is_text_def as_bytes_def)
    qed
    then show ?case using Cons by simp
  qed simp
  from this[of "rev s"] assms(1) show ?thesis by (simp add: trim_end_char_def)
qed

end
