(* ===== verification/Common.thy ===== *)
theory Common
  imports Float64 Text
begin

text \<open>
  The crate \<^verbatim>\<open>common\<close>: telemetry frames and their metadata, network quality with its two
  predicates, the operating modes, encrypted frames, and the rolling context buffer with its two
  eviction loops. The buffer is refined to a declarative specification, the longest suffix of the
  old frames that leaves room for the new one, and offered to its client, the edge agent, through
  the locale \<open>rolling_buffer\<close>.
\<close>

section \<open>Frames, network quality, modes\<close>

record frame_metadata =
  fm_latency_ms :: "f64 option"
  fm_packet_loss_pct :: "f64 option"
  fm_jitter_ms :: "f64 option"
  fm_agent_mode :: "string option"
  fm_session_id :: "string option"

definition default_metadata :: frame_metadata where
  "default_metadata = \<lparr>fm_latency_ms = None, fm_packet_loss_pct = None, fm_jitter_ms = None,
     fm_agent_mode = None, fm_session_id = None\<rparr>"

record telemetry_frame =
  frame_id :: u64
  source_ip :: string
  dest_ip :: "string option"
  timestamp_ns :: u64
  payload :: bytes
  metadata :: frame_metadata

record network_quality =
  latency_ms :: f64
  packet_loss_pct :: f64
  jitter_ms :: f64
  bandwidth_mbps :: f64
  measured_at :: u64

definition is_degraded :: "network_quality \<Rightarrow> bool" where
  "is_degraded q \<longleftrightarrow> latency_ms q > f64_lit 200 \<or> packet_loss_pct q > f64_lit 5
     \<or> jitter_ms q > f64_lit 50"

definition is_offline :: "network_quality \<Rightarrow> bool" where
  "is_offline q \<longleftrightarrow> latency_ms q > f64_lit 5000 \<or> packet_loss_pct q > f64_lit 50"

text \<open>The offline thresholds lie inside the degraded ones, for NaN and infinities too.\<close>

lemma offline_imp_degraded: "is_offline q \<Longrightarrow> is_degraded q"
  by (cases "latency_ms q"; cases "packet_loss_pct q")
     (auto simp: is_offline_def is_degraded_def)

datatype agent_mode = Online | Degraded | Offline | Transitioning

text \<open>The severity order of the modes, used to state monotonicity.\<close>

fun severity :: "agent_mode \<Rightarrow> nat" where
  "severity Online = 0"
| "severity Degraded = 1"
| "severity Offline = 2"
| "severity Transitioning = 3"

lemma severity_inject [simp]: "severity m = severity n \<longleftrightarrow> m = n"
  by (cases m; cases n) auto

instantiation agent_mode :: linorder
begin

definition less_eq_agent_mode :: "agent_mode \<Rightarrow> agent_mode \<Rightarrow> bool" where
  "less_eq_agent_mode m n \<longleftrightarrow> severity m \<le> severity n"

definition less_agent_mode :: "agent_mode \<Rightarrow> agent_mode \<Rightarrow> bool" where
  "less_agent_mode m n \<longleftrightarrow> severity m < severity n"

instance
  by standard (auto simp: less_eq_agent_mode_def less_agent_mode_def)

end

text \<open>The text \<^verbatim>\<open>{:?}\<close> prints.\<close>

fun debug_mode :: "agent_mode \<Rightarrow> string" where
  "debug_mode Online = ''Online''"
| "debug_mode Degraded = ''Degraded''"
| "debug_mode Offline = ''Offline''"
| "debug_mode Transitioning = ''Transitioning''"

text \<open>The shared type of hybrid keys, which the transport crate does not use.\<close>

record common_hybrid_key =
  x25519_pubkey :: bytes
  mlkem_pubkey :: bytes

record encrypted_frame =
  ef_frame_id :: u64
  ef_nonce :: bytes
  ef_ciphertext :: bytes
  ef_tag :: bytes

text \<open>The crate's error type; errors of other crates are their text.\<close>

datatype common_error =
    InvalidFrameSize usize usize
  | Serialization string
  | CommonIo string
  | BufferOverflow usize usize
  | Config string

fun show_common_error :: "common_error \<Rightarrow> string" where
  "show_common_error (InvalidFrameSize expected actual) =
     ''Invalid frame size: expected '' @ show_word expected @ '', got '' @ show_word actual"
| "show_common_error (Serialization s) = ''Serialization error: '' @ s"
| "show_common_error (CommonIo s) = ''IO error: '' @ s"
| "show_common_error (BufferOverflow requested available) =
     ''Buffer overflow: attempted to write '' @ show_word requested @ '' bytes but only ''
       @ show_word available @ '' available''"
| "show_common_error (Config s) = ''Configuration error: '' @ s"

section \<open>The context buffer\<close>

record context_buffer =
  frames :: "telemetry_frame list"
  max_frames :: usize
  max_bytes :: usize
  total_bytes :: usize

definition buffer_new :: "usize \<Rightarrow> usize \<Rightarrow> context_buffer" where
  "buffer_new mf mb = \<lparr>frames = [], max_frames = mf, max_bytes = mb, total_bytes = 0\<rparr>"

text \<open>\<^verbatim>\<open>while total_bytes + frame_size > max_bytes && !frames.is_empty()\<close>\<close>

fun evict_bytes :: "usize \<Rightarrow> usize \<Rightarrow> telemetry_frame list \<Rightarrow> usize
    \<Rightarrow> telemetry_frame list \<times> usize" where
  "evict_bytes mb sz [] tb = ([], tb)"
| "evict_bytes mb sz (oldest # fs) tb =
     (if tb + sz > mb
      then evict_bytes mb sz fs (saturating_sub tb (usize_len (payload oldest)))
      else (oldest # fs, tb))"

text \<open>\<^verbatim>\<open>while frames.len() >= max_frames && !frames.is_empty()\<close>\<close>

fun evict_frames :: "usize \<Rightarrow> telemetry_frame list \<Rightarrow> usize
    \<Rightarrow> telemetry_frame list \<times> usize" where
  "evict_frames mf [] tb = ([], tb)"
| "evict_frames mf (oldest # fs) tb =
     (if usize_len (oldest # fs) \<ge> mf
      then evict_frames mf fs (saturating_sub tb (usize_len (payload oldest)))
      else (oldest # fs, tb))"

definition buffer_push :: "context_buffer \<Rightarrow> telemetry_frame \<Rightarrow> context_buffer" where
  "buffer_push b frame =
     (let frame_size = usize_len (payload frame);
          (fs1, tb1) = evict_bytes (max_bytes b) frame_size (frames b) (total_bytes b);
          (fs2, tb2) = evict_frames (max_frames b) fs1 tb1
      in b\<lparr>total_bytes := tb2 + frame_size, frames := fs2 @ [frame]\<rparr>)"

definition get_recent :: "context_buffer \<Rightarrow> usize \<Rightarrow> telemetry_frame list" where
  "get_recent b count = take (unat count) (rev (frames b))"

definition buffer_len :: "context_buffer \<Rightarrow> usize" where
  "buffer_len b = usize_len (frames b)"

definition buffer_total_bytes :: "context_buffer \<Rightarrow> usize" where
  "buffer_total_bytes b = total_bytes b"

definition buffer_is_empty :: "context_buffer \<Rightarrow> bool" where
  "buffer_is_empty b \<longleftrightarrow> frames b = []"

definition buffer_clear :: "context_buffer \<Rightarrow> context_buffer" where
  "buffer_clear b = b\<lparr>frames := [], total_bytes := 0\<rparr>"

subsection \<open>Specification\<close>

definition payload_bytes :: "telemetry_frame list \<Rightarrow> nat" where
  "payload_bytes fs = sum_list (map (\<lambda>f. length (payload f)) fs)"

lemma payload_bytes_simps [simp]:
  "payload_bytes [] = 0"
  "payload_bytes (f # fs) = length (payload f) + payload_bytes fs"
  "payload_bytes (fs @ gs) = payload_bytes fs + payload_bytes gs"
  by (simp_all add: payload_bytes_def)

lemma payload_bytes_drop: "payload_bytes (drop k fs) \<le> payload_bytes fs"
  unfolding payload_bytes_def by (rule sum_list_drop_le)

text \<open>A tail of the frames that leaves room for \<open>sz\<close> more bytes and one more frame.\<close>

definition has_room :: "nat \<Rightarrow> nat \<Rightarrow> nat \<Rightarrow> telemetry_frame list \<Rightarrow> bool" where
  "has_room mf mb sz fs \<longleftrightarrow> payload_bytes fs + sz \<le> mb \<and> length fs < mf"

fun fitting_suffix :: "nat \<Rightarrow> nat \<Rightarrow> nat \<Rightarrow> telemetry_frame list \<Rightarrow> telemetry_frame list" where
  "fitting_suffix mf mb sz [] = []"
| "fitting_suffix mf mb sz (f # fs) =
     (if has_room mf mb sz (f # fs) then f # fs else fitting_suffix mf mb sz fs)"

text \<open>The counter agrees with the frames, and stays far from the word size.\<close>

definition buffer_inv :: "context_buffer \<Rightarrow> bool" where
  "buffer_inv b \<longleftrightarrow> unat (total_bytes b) = payload_bytes (frames b)
     \<and> payload_bytes (frames b) \<le> isize_max
     \<and> length (frames b) \<le> max 1 (unat (max_frames b))
     \<and> unat (max_bytes b) \<le> isize_max"

definition frame_ok :: "telemetry_frame \<Rightarrow> bool" where
  "frame_ok f \<longleftrightarrow> length (payload f) \<le> isize_max"

lemma fitting_suffix_drop: "\<exists>k. fitting_suffix mf mb sz fs = drop k fs"
proof (induction fs)
  case (Cons f fs)
  then obtain k where "fitting_suffix mf mb sz fs = drop k fs" by blast
  then show ?case by (auto intro: exI[of _ 0] exI[of _ "Suc k"])
qed simp

lemma fitting_suffix_room:
  "fitting_suffix mf mb sz fs = [] \<or> has_room mf mb sz (fitting_suffix mf mb sz fs)"
  by (induction fs) auto

text \<open>It is the longest such tail: evicting less would break a cap.\<close>

lemma fitting_suffix_longest:
  "has_room mf mb sz (drop k fs) \<Longrightarrow> length (drop k fs) \<le> length (fitting_suffix mf mb sz fs)"
proof (induction fs arbitrary: k)
  case (Cons f fs)
  then show ?case by (cases k) auto
qed simp

subsection \<open>The loops implement the specification\<close>

lemma evict_bytes_spec:
  assumes "unat tb = payload_bytes fs" "payload_bytes fs + unat sz < 2 ^ 64"
  shows "\<exists>gs tb'. evict_bytes mb sz fs tb = (gs, tb') \<and> unat tb' = payload_bytes gs
    \<and> (\<exists>k. gs = drop k fs) \<and> (gs = [] \<or> payload_bytes gs + unat sz \<le> unat mb)
    \<and> (\<forall>k. payload_bytes (drop k fs) + unat sz \<le> unat mb \<longrightarrow> length (drop k fs) \<le> length gs)"
  using assms
proof (induction fs arbitrary: tb)
  case (Cons f fs)
  have sum: "unat (tb + sz) = payload_bytes (f # fs) + unat sz"
    using Cons.prems by (simp add: unat_add_no_wrap)
  show ?case
  proof (cases "tb + sz > mb")
    case True
    have "length (payload f) < 2 ^ 64" using Cons.prems by simp
    then have "unat (saturating_sub tb (usize_len (payload f))) = payload_bytes fs"
      using Cons.prems by (simp add: word_nat_simps)
    from Cons.IH[OF this] Cons.prems obtain gs tb' k where
      IH: "evict_bytes mb sz fs (saturating_sub tb (usize_len (payload f))) = (gs, tb')"
        "unat tb' = payload_bytes gs" "gs = drop k fs"
        "gs = [] \<or> payload_bytes gs + unat sz \<le> unat mb"
        "\<forall>k. payload_bytes (drop k fs) + unat sz \<le> unat mb \<longrightarrow> length (drop k fs) \<le> length gs"
      by auto
    have "length (drop j (f # fs)) \<le> length gs"
      if "payload_bytes (drop j (f # fs)) + unat sz \<le> unat mb" for j
      using that True sum IH(5) by (cases j) (auto simp: word_less_nat_alt)
    moreover have "\<exists>k. gs = drop k (f # fs)" using IH(3) by (intro exI[of _ "Suc k"]) simp
    ultimately show ?thesis using True IH(1,2,4) by auto
  next
    case False
    then show ?thesis
      using Cons.prems sum by (auto simp: word_less_nat_alt intro: exI[of _ 0])
  qed
qed auto

lemma evict_frames_spec:
  assumes "unat tb = payload_bytes fs" "length fs < 2 ^ 64" "payload_bytes fs < 2 ^ 64"
  shows "\<exists>gs tb'. evict_frames mf fs tb = (gs, tb') \<and> unat tb' = payload_bytes gs
    \<and> (\<exists>k. gs = drop k fs) \<and> (gs = [] \<or> length gs < unat mf)
    \<and> (\<forall>k. length (drop k fs) < unat mf \<longrightarrow> length (drop k fs) \<le> length gs)"
  using assms
proof (induction fs arbitrary: tb)
  case (Cons f fs)
  have len: "unat (usize_len (f # fs)) = length (f # fs)"
    using Cons.prems by (simp add: unat_usize_len)
  show ?case
  proof (cases "usize_len (f # fs) \<ge> mf")
    case True
    have "length (payload f) < 2 ^ 64" using Cons.prems by simp
    then have "unat (saturating_sub tb (usize_len (payload f))) = payload_bytes fs"
      using Cons.prems by (simp add: word_nat_simps)
    from Cons.IH[OF this] Cons.prems obtain gs tb' k where
      IH: "evict_frames mf fs (saturating_sub tb (usize_len (payload f))) = (gs, tb')"
        "unat tb' = payload_bytes gs" "gs = drop k fs" "gs = [] \<or> length gs < unat mf"
        "\<forall>k. length (drop k fs) < unat mf \<longrightarrow> length (drop k fs) \<le> length gs"
      by auto
    have "length (drop j (f # fs)) \<le> length gs" if "length (drop j (f # fs)) < unat mf" for j
      using that True len IH(5) by (cases j) (auto simp: word_le_nat_alt)
    moreover have "\<exists>k. gs = drop k (f # fs)" using IH(3) by (intro exI[of _ "Suc k"]) simp
    ultimately show ?thesis using True IH(1,2,4) by auto
  next
    case False
    then show ?thesis
      using Cons.prems len by (auto simp: word_le_nat_alt intro: exI[of _ 0])
  qed
qed auto

lemma buffer_push_spec:
  assumes inv: "buffer_inv b" and ok: "frame_ok f"
  shows "frames (buffer_push b f) =
      fitting_suffix (unat (max_frames b)) (unat (max_bytes b)) (length (payload f)) (frames b) @ [f]"
    and "unat (total_bytes (buffer_push b f)) = payload_bytes (frames (buffer_push b f))"
proof -
  let ?mf = "unat (max_frames b)" and ?mb = "unat (max_bytes b)" and ?n = "length (payload f)"
  let ?sz = "usize_len (payload f)"
  have n: "unat ?sz = ?n" "?n \<le> isize_max"
    using ok by (auto simp: frame_ok_def intro: unat_usize_len isize_max_less)
  have tb: "unat (total_bytes b) = payload_bytes (frames b)" "payload_bytes (frames b) \<le> isize_max"
    using inv by (simp_all add: buffer_inv_def)
  then have "payload_bytes (frames b) + unat ?sz < 2 ^ 64"
    using n by (simp only: isize_max_add_less)
  from evict_bytes_spec[OF tb(1) this, of "max_bytes b", unfolded n(1)] obtain gs tb1 k where
    g: "evict_bytes (max_bytes b) ?sz (frames b) (total_bytes b) = (gs, tb1)"
      "unat tb1 = payload_bytes gs" "gs = drop k (frames b)" "gs = [] \<or> payload_bytes gs + ?n \<le> ?mb"
      "\<And>k. payload_bytes (drop k (frames b)) + ?n \<le> ?mb \<Longrightarrow> length (drop k (frames b)) \<le> length gs"
    by blast
  have small: "payload_bytes gs \<le> isize_max"
    using tb(2) payload_bytes_drop[of k "frames b"] g(3) by simp
  have "length gs < 2 ^ 64"
  proof -
    have "length gs \<le> length (frames b)" using g(3) by simp
    moreover have "unat (max_frames b) < 2 ^ 64" using unsigned_less[of "max_frames b"] by simp
    ultimately show ?thesis using inv by (auto simp: buffer_inv_def max_def split: if_splits)
  qed
  from evict_frames_spec[OF g(2) this isize_max_less[OF small], of "max_frames b"] obtain hs tb2 j where
    h: "evict_frames (max_frames b) gs tb1 = (hs, tb2)" "unat tb2 = payload_bytes hs" "hs = drop j gs"
      "hs = [] \<or> length hs < ?mf" "\<And>k. length (drop k gs) < ?mf \<Longrightarrow> length (drop k gs) \<le> length hs"
    by blast
  define ss where "ss = fitting_suffix ?mf ?mb ?n (frames b)"
  obtain i where i: "ss = drop i (frames b)" using fitting_suffix_drop ss_def by blast
  have hk: "hs = drop (j + k) (frames b)" using h(3) g(3) by simp
  have "length ss \<le> length hs"
  proof (cases "ss = []")
    case False
    then have room: "payload_bytes ss + ?n \<le> ?mb" "length ss < ?mf"
      using fitting_suffix_room[of ?mf ?mb ?n "frames b"] by (auto simp: ss_def has_room_def)
    with g(5)[of i] i have "length ss \<le> length gs" by simp
    then obtain m where "ss = drop m gs" using drop_drop_by_length i g(3) by metis
    with h(5)[of m] room show ?thesis by simp
  qed simp
  moreover have "length hs \<le> length ss"
  proof (cases "hs = []")
    case False
    then have "gs \<noteq> []" using h(3) by auto
    then have "has_room ?mf ?mb ?n hs"
      using g(4) h(3,4) False payload_bytes_drop[of j gs] by (auto simp: has_room_def)
    with fitting_suffix_longest[of ?mf ?mb ?n "j + k" "frames b"] show ?thesis
      by (simp add: hk ss_def)
  qed simp
  ultimately have hs: "hs = ss" using drop_eq_by_length[of "j + k" "frames b" i] hk i by simp
  have push: "buffer_push b f = b\<lparr>total_bytes := tb2 + ?sz, frames := hs @ [f]\<rparr>"
    by (simp add: buffer_push_def g(1) h(1))
  show "frames (buffer_push b f) = fitting_suffix ?mf ?mb ?n (frames b) @ [f]"
    by (simp add: push hs ss_def)
  have "payload_bytes hs + ?n < 2 ^ 64"
    using payload_bytes_drop[of j gs] small n(2) h(3) by (intro isize_max_add_less) auto
  then show "unat (total_bytes (buffer_push b f)) = payload_bytes (frames (buffer_push b f))"
    by (simp add: push unat_add_no_wrap h(2) n(1))
qed

lemma buffer_push_config [simp]:
  "max_frames (buffer_push b f) = max_frames b" "max_bytes (buffer_push b f) = max_bytes b"
  by (simp_all add: buffer_push_def Let_def split: prod.splits)

subsection \<open>Invariants and bounds\<close>

lemma fitting_suffix_bytes:
  "payload_bytes (fitting_suffix mf mb n fs) + n \<le> max mb n"
  using fitting_suffix_room[of mf mb n fs] by (auto simp: has_room_def)

lemma fitting_suffix_length:
  "length (fitting_suffix mf mb n fs) + 1 \<le> max 1 mf"
  using fitting_suffix_room[of mf mb n fs] by (auto simp: has_room_def)

lemma buffer_push_total_le:
  assumes "buffer_inv b" "frame_ok f"
  shows "unat (total_bytes (buffer_push b f)) \<le> max (unat (max_bytes b)) (length (payload f))"
  using fitting_suffix_bytes[of "unat (max_frames b)" "unat (max_bytes b)" "length (payload f)" "frames b"]
  by (simp add: buffer_push_spec[OF assms])

lemma buffer_push_inv:
  assumes "buffer_inv b" "frame_ok f"
  shows "buffer_inv (buffer_push b f)"
proof -
  have "payload_bytes (frames (buffer_push b f)) \<le> isize_max"
    using buffer_push_total_le[OF assms] assms
    by (auto simp: buffer_push_spec(2)[OF assms] buffer_inv_def frame_ok_def max_def split: if_splits)
  moreover have "length (frames (buffer_push b f)) \<le> max 1 (unat (max_frames b))"
    using fitting_suffix_length by (simp add: buffer_push_spec(1)[OF assms])
  ultimately show ?thesis
    using assms by (simp add: buffer_inv_def buffer_push_spec(2)[OF assms])
qed

lemma buffer_clear_inv: "buffer_inv b \<Longrightarrow> buffer_inv (buffer_clear b)"
  by (simp add: buffer_inv_def buffer_clear_def)

lemma buffer_new_inv: "unat mb \<le> isize_max \<Longrightarrow> buffer_inv (buffer_new mf mb)"
  by (simp add: buffer_inv_def buffer_new_def)

section \<open>The buffer as its client sees it\<close>

text \<open>
  A rolling buffer promises that a push keeps the newest elements and ends with the new one, and
  that clearing empties it. Then what it holds after any run of pushes is the most recent part of
  what was pushed.
\<close>

locale rolling_buffer =
  fixes push :: "'b \<Rightarrow> 'x \<Rightarrow> 'b" and clear :: "'b \<Rightarrow> 'b" and contents :: "'b \<Rightarrow> 'x list"
    and inv :: "'b \<Rightarrow> bool" and ok :: "'x \<Rightarrow> bool"
  assumes inv_push: "inv b \<Longrightarrow> ok x \<Longrightarrow> inv (push b x)"
    and inv_clear: "inv b \<Longrightarrow> inv (clear b)"
    and contents_push: "inv b \<Longrightarrow> ok x \<Longrightarrow> \<exists>k. contents (push b x) = drop k (contents b) @ [x]"
    and contents_clear: "contents (clear b) = []"
begin

lemma inv_pushes: "inv b \<Longrightarrow> list_all ok xs \<Longrightarrow> inv (foldl push b xs)"
  by (induction xs arbitrary: b) (auto intro: inv_push)

lemma contents_pushes:
  "inv b \<Longrightarrow> list_all ok xs \<Longrightarrow> \<exists>k. contents (foldl push b xs) = drop k (contents b @ xs)"
proof (induction xs arbitrary: b)
  case Nil
  then show ?case by (auto intro: exI[of _ 0])
next
  case (Cons x xs)
  then have "inv b" "ok x" by auto
  then obtain k where k: "contents (push b x) = drop k (contents b) @ [x]"
    using contents_push by blast
  from Cons obtain m where "contents (foldl push (push b x) xs) = drop m (contents (push b x) @ xs)"
    using inv_push by (metis list.pred_inject(2))
  moreover have "contents (push b x) @ xs = drop (min k (length (contents b))) (contents b @ x # xs)"
    by (simp add: k min_def)
  ultimately show ?case by (metis drop_drop foldl_Cons)
qed

lemma push_last: "inv b \<Longrightarrow> ok x \<Longrightarrow> contents (push b x) \<noteq> [] \<and> last (contents (push b x)) = x"
  using contents_push by fastforce

end

interpretation ctx: rolling_buffer buffer_push buffer_clear frames buffer_inv frame_ok
proof unfold_locales
  fix b x assume "buffer_inv b" "frame_ok x"
  then show "\<exists>k. frames (buffer_push b x) = drop k (frames b) @ [x]"
    using fitting_suffix_drop by (metis buffer_push_spec(1))
qed (auto simp: buffer_clear_def intro: buffer_push_inv buffer_clear_inv[unfolded buffer_clear_def])

section \<open>Properties\<close>

text \<open>C5: A push evicts no more than it must: it keeps the longest tail of the frames that leaves room
  for the new one under both caps (nothing when no tail does), appends the new frame, and the byte
  counter is again the sum of the payloads.\<close>

theorem push_keeps_longest_tail:
  assumes "buffer_inv b" and "frame_ok f"
  shows "\<exists>k. frames (buffer_push b f) = drop k (frames b) @ [f]
    \<and> (drop k (frames b) = []
       \<or> has_room (unat (max_frames b)) (unat (max_bytes b)) (length (payload f)) (drop k (frames b)))
    \<and> (\<forall>j. has_room (unat (max_frames b)) (unat (max_bytes b)) (length (payload f)) (drop j (frames b))
         \<longrightarrow> length (drop j (frames b)) \<le> length (drop k (frames b)))
    \<and> unat (total_bytes (buffer_push b f)) = payload_bytes (frames (buffer_push b f))"
proof -
  obtain k where k: "fitting_suffix (unat (max_frames b)) (unat (max_bytes b)) (length (payload f)) (frames b)
      = drop k (frames b)"
    using fitting_suffix_drop by blast
  show ?thesis
    using buffer_push_spec[OF assms] fitting_suffix_room fitting_suffix_longest
    unfolding k[symmetric] by (metis k)
qed

definition demo_frame :: "u64 \<Rightarrow> nat \<Rightarrow> telemetry_frame" where
  "demo_frame i n = \<lparr>frame_id = i, source_ip = ''192.168.1.1'', dest_ip = None, timestamp_ns = i * 1000,
     payload = replicate n 0, metadata = default_metadata\<rparr>"

text \<open>Three frames of 100 bytes under a cap of 1024, then one of 800: the oldest is evicted.\<close>

definition demo_buffer :: context_buffer where
  "demo_buffer = foldl buffer_push (buffer_new 10 1024) [demo_frame 1 100, demo_frame 2 100, demo_frame 3 100]"

lemmas buffer_eval = demo_frame_def buffer_new_def buffer_push_def usize_len_def saturating_sub_def

lemma demo_buffer_frames:
  "frames demo_buffer = [demo_frame 1 100, demo_frame 2 100, demo_frame 3 100]"
  "total_bytes demo_buffer = 300" "max_frames demo_buffer = 10" "max_bytes demo_buffer = 1024"
  by (simp_all add: demo_buffer_def buffer_eval word_le_nat_alt)

lemma demo_ok: "buffer_inv demo_buffer" "frame_ok (demo_frame i 800)"
  using demo_buffer_frames
  by (simp_all add: buffer_inv_def frame_ok_def isize_max_def demo_frame_def le_max_iff_disj)

theorem push_keeps_longest_tail_witness:
  "frames (buffer_push demo_buffer (demo_frame 4 800))
     = [demo_frame 2 100, demo_frame 3 100, demo_frame 4 800]
   \<and> unat (total_bytes (buffer_push demo_buffer (demo_frame 4 800))) = 1000"
proof -
  have "frames (buffer_push demo_buffer (demo_frame 4 800))
     = [demo_frame 2 100, demo_frame 3 100, demo_frame 4 800]"
    by (simp add: buffer_push_def demo_buffer_frames usize_len_def saturating_sub_def demo_frame_def)
  with push_keeps_longest_tail[OF demo_ok, of 4] show ?thesis by (auto simp: demo_frame_def)
qed

text \<open>C21: The caps, exactly: after a push the payloads are within \<open>max_bytes\<close> if and only if the pushed
  frame alone is, and the frames are within \<open>max_frames\<close> if and only if that is not zero. The
  invariant is kept, so this holds after every push.\<close>

theorem push_caps_exact:
  assumes "buffer_inv b" and "frame_ok f"
  shows "buffer_inv (buffer_push b f)
    \<and> (payload_bytes (frames (buffer_push b f)) \<le> unat (max_bytes b) \<longleftrightarrow> length (payload f) \<le> unat (max_bytes b))
    \<and> (length (frames (buffer_push b f)) \<le> unat (max_frames b) \<longleftrightarrow> max_frames b \<noteq> 0)"
proof -
  let ?fs = "fitting_suffix (unat (max_frames b)) (unat (max_bytes b)) (length (payload f)) (frames b)"
  have "payload_bytes ?fs + length (payload f) \<le> unat (max_bytes b) \<longleftrightarrow> length (payload f) \<le> unat (max_bytes b)"
    using fitting_suffix_room[of "unat (max_frames b)" "unat (max_bytes b)" "length (payload f)" "frames b"]
    by (auto simp: has_room_def)
  moreover have "length ?fs + 1 \<le> unat (max_frames b) \<longleftrightarrow> max_frames b \<noteq> 0"
    using fitting_suffix_length[of "unat (max_frames b)" "unat (max_bytes b)" "length (payload f)" "frames b"]
    by (auto simp: max_def unat_eq_zero Suc_le_eq unat_gt_0 split: if_splits)
  ultimately show ?thesis
    using buffer_push_inv[OF assms] by (simp add: buffer_push_spec(1)[OF assms])
qed

theorem push_caps_exact_witness:
  "\<not> payload_bytes (frames (buffer_push demo_buffer (demo_frame 4 2000))) \<le> 1024
   \<and> length (frames (buffer_push demo_buffer (demo_frame 4 2000))) \<le> 10"
proof -
  have "frame_ok (demo_frame 4 2000)" by (simp add: frame_ok_def isize_max_def demo_frame_def)
  from push_caps_exact[OF demo_ok(1) this] show ?thesis
    by (simp add: demo_buffer_frames demo_frame_def)
qed

text \<open>A buffer that only grew by pushes answers \<open>get_recent\<close> with the most recently pushed frames,
  newest first and without a gap, as many as asked for and still held.\<close>

lemma recent_of_pushes:
  assumes "unat mb \<le> isize_max" and "list_all frame_ok fs"
    and "b = foldl buffer_push (buffer_new mf mb) fs"
  shows "get_recent b n = take (min (unat n) (length (frames b))) (rev fs)"
proof -
  obtain k where "frames b = drop k fs"
    using ctx.contents_pushes[OF buffer_new_inv[OF assms(1)] assms(2), of mf]
    by (auto simp: assms(3) buffer_new_def)
  then show ?thesis
    by (simp add: get_recent_def rev_drop min_def)
qed

end
