(* ===== verification/Inference.thy ===== *)
theory Inference
  imports Common
begin

text \<open>
  Local inference (\<^verbatim>\<open>crates/edge-agent/src/inference.rs\<close>): the pluggable backend as a coinductive
  object, the simulated backend, and the llama.cpp backend with its prompt batch and its token
  loop. The llama.cpp binding and the UTF-8 stream decoder are third-party code, so their
  operations are the fields of a parameter. What a client may rely on, that no backend reports
  more tokens than it was allowed, is the locale \<open>token_budget\<close>.
\<close>

section \<open>Errors and output\<close>

datatype agent_error =
    ProbeFailed
  | ModeTransitionFailed string
  | InferenceFailed string

fun show_agent_error :: "agent_error \<Rightarrow> string" where
  "show_agent_error ProbeFailed = ''Network probe failed''"
| "show_agent_error (ModeTransitionFailed s) = ''Mode transition failed: '' @ s"
| "show_agent_error (InferenceFailed s) = ''Inference failed: '' @ s"

record inference_output =
  out_text :: string
  tokens_generated :: usize
  out_model_name :: string

section \<open>Backends\<close>

text \<open>
  A \<^verbatim>\<open>Box<dyn InferenceBackend>\<close> is known by its behaviour only: its name, and what a call of
  \<^verbatim>\<open>infer(&mut self, ..)\<close> returns together with the backend after the call.
\<close>

codatatype backend =
  Backend (backend_name: string)
    (backend_infer: "string \<Rightarrow> usize \<Rightarrow> backend \<times> (agent_error + inference_output)")

definition simulated_output :: inference_output where
  "simulated_output = \<lparr>out_text = ''LOCAL_SAFETY_CHECK'', tokens_generated = 0,
     out_model_name = ''qwen2.5-0.5b (simulated)''\<rparr>"

primcorec simulated_backend :: backend where
  "backend_name simulated_backend = ''simulated''"
| "backend_infer simulated_backend =
     (\<lambda>prompt max_tokens. map_prod (\<lambda>_. simulated_backend) id ((), Inr simulated_output))"

section \<open>The llama.cpp backend\<close>

definition CTX_SIZE :: u32 where
  "CTX_SIZE = 512"

text \<open>
  The operations of \<^verbatim>\<open>llama-cpp-2\<close> and \<^verbatim>\<open>encoding_rs\<close> that \<^verbatim>\<open>infer\<close> calls, on types of theirs for
  contexts, batches, tokens, samplers and decoders. Errors are their printed text.
\<close>

record ('ctx, 'batch, 'tok, 'smp, 'dec) llama_api =
  new_context :: "u32 \<Rightarrow> string + 'ctx"
  str_to_token :: "string \<Rightarrow> string + 'tok list"
  batch_new :: "usize \<Rightarrow> u32 \<Rightarrow> 'batch"
  batch_add :: "'batch \<Rightarrow> 'tok \<Rightarrow> u32 \<Rightarrow> bool \<Rightarrow> string + 'batch"
  batch_clear :: "'batch \<Rightarrow> 'batch"
  batch_n_tokens :: "'batch \<Rightarrow> u32"
  ctx_decode :: "'ctx \<Rightarrow> 'batch \<Rightarrow> string + 'ctx \<times> 'batch"
  sampler_greedy :: 'smp
  sampler_sample :: "'smp \<Rightarrow> 'ctx \<Rightarrow> u32 \<Rightarrow> 'smp \<times> 'tok"
  is_eog_token :: "'tok \<Rightarrow> bool"
  new_decoder :: 'dec
  token_to_piece :: "'tok \<Rightarrow> 'dec \<Rightarrow> 'dec \<times> string option"

text \<open>Put the prompt's tokens into the batch; only the last one asks for logits.\<close>

fun batch_fill :: "('ctx, 'batch, 'tok, 'smp, 'dec) llama_api \<Rightarrow> usize \<Rightarrow> 'batch \<Rightarrow> usize
    \<Rightarrow> 'tok list \<Rightarrow> agent_error + 'batch" where
  "batch_fill api last_idx batch i [] = Inr batch"
| "batch_fill api last_idx batch i (tok # toks) =
     (case batch_add api batch tok (ucast i) (i = last_idx) of
        Inl e \<Rightarrow> Inl (InferenceFailed (''batch add: '' @ e))
      | Inr batch' \<Rightarrow> batch_fill api last_idx batch' (i + 1) toks)"

text \<open>The state of the token loop.\<close>

record ('ctx, 'batch, 'smp, 'dec) gen_state =
  gs_ctx :: 'ctx
  gs_batch :: 'batch
  gs_sampler :: 'smp
  gs_decoder :: 'dec
  gs_output :: string
  gs_n_cur :: u32
  gs_generated :: usize

function generate :: "('ctx, 'batch, 'tok, 'smp, 'dec) llama_api \<Rightarrow> usize
    \<Rightarrow> ('ctx, 'batch, 'smp, 'dec) gen_state
    \<Rightarrow> agent_error + ('ctx, 'batch, 'smp, 'dec) gen_state" where
  "generate api max_tokens s =
     (if gs_generated s < max_tokens \<and> gs_n_cur s < CTX_SIZE then
        (case sampler_sample api (gs_sampler s) (gs_ctx s) (batch_n_tokens api (gs_batch s) - 1) of
          (smp, tok) \<Rightarrow>
            if is_eog_token api tok then Inr (s\<lparr>gs_sampler := smp\<rparr>)
            else (case token_to_piece api tok (gs_decoder s) of
              (dec, piece) \<Rightarrow>
                (case batch_add api (batch_clear api (gs_batch s)) tok (gs_n_cur s) True of
                   Inl e \<Rightarrow> Inl (InferenceFailed (''batch add: '' @ e))
                 | Inr batch \<Rightarrow>
                     (case ctx_decode api (gs_ctx s) batch of
                        Inl e \<Rightarrow> Inl (InferenceFailed (''decode: '' @ e))
                      | Inr (ctx, batch') \<Rightarrow>
                          generate api max_tokens
                            \<lparr>gs_ctx = ctx, gs_batch = batch', gs_sampler = smp, gs_decoder = dec,
                             gs_output = gs_output s @ (case piece of None \<Rightarrow> [] | Some p \<Rightarrow> p),
                             gs_n_cur = gs_n_cur s + 1, gs_generated = gs_generated s + 1\<rparr>))))
      else Inr s)"
  by pat_completeness auto

termination
  by (relation "measure (\<lambda>(api, m, s). unat m - unat (gs_generated s))")
     (auto simp: word_measure_decreases)

declare generate.simps [simp del]

definition llama_infer :: "('ctx, 'batch, 'tok, 'smp, 'dec) llama_api \<Rightarrow> string \<Rightarrow> string \<Rightarrow> usize
    \<Rightarrow> agent_error + inference_output" where
  "llama_infer api model prompt max_tokens =
     (case new_context api CTX_SIZE of
        Inl e \<Rightarrow> Inl (InferenceFailed (''context: '' @ e))
      | Inr ctx \<Rightarrow>
     (case str_to_token api prompt of
        Inl e \<Rightarrow> Inl (InferenceFailed (''tokenize: '' @ e))
      | Inr tokens \<Rightarrow>
     (case batch_fill api (saturating_sub (usize_len tokens) 1)
             (batch_new api (ucast CTX_SIZE) 1) 0 tokens of
        Inl e \<Rightarrow> Inl e
      | Inr batch \<Rightarrow>
     (case ctx_decode api ctx batch of
        Inl e \<Rightarrow> Inl (InferenceFailed (''decode: '' @ e))
      | Inr (ctx', batch') \<Rightarrow>
     (case generate api max_tokens
             \<lparr>gs_ctx = ctx', gs_batch = batch', gs_sampler = sampler_greedy api,
              gs_decoder = new_decoder api, gs_output = [],
              gs_n_cur = ucast (usize_len tokens), gs_generated = 0\<rparr> of
        Inl e \<Rightarrow> Inl e
      | Inr s \<Rightarrow> Inr \<lparr>out_text = gs_output s, tokens_generated = gs_generated s,
                       out_model_name = model\<rparr>)))))"

primcorec llama_backend :: "('ctx, 'batch, 'tok, 'smp, 'dec) llama_api \<Rightarrow> string \<Rightarrow> backend" where
  "backend_name (llama_backend api model) = ''llama.cpp''"
| "backend_infer (llama_backend api model) =
     (\<lambda>prompt max_tokens. map_prod (\<lambda>_. llama_backend api model) id
        ((), llama_infer api model prompt max_tokens))"

text \<open>
  \<^verbatim>\<open>LlamaCppBackend::load\<close>: \<open>init\<close> and \<open>load_from_file\<close> are the binding's, and what the latter loads for a
  number of GPU layers is the \<open>llama_api\<close> of the model.
\<close>

definition llama_load :: "string + unit
    \<Rightarrow> (string \<Rightarrow> u32 \<Rightarrow> string + ('ctx, 'batch, 'tok, 'smp, 'dec) llama_api)
    \<Rightarrow> string \<Rightarrow> u32 \<Rightarrow> agent_error + backend" where
  "llama_load init load_from_file model_path gpu_layers =
     (case init of
        Inl e \<Rightarrow> Inl (InferenceFailed (''llama init: '' @ e))
      | Inr _ \<Rightarrow>
          (case load_from_file model_path gpu_layers of
             Inl e \<Rightarrow> Inl (InferenceFailed (''model load: '' @ e))
           | Inr api \<Rightarrow>
               (let model_name = (case path_file_stem model_path of
                                    None \<Rightarrow> ''unknown''
                                  | Some s \<Rightarrow> from_utf8_lossy (as_bytes s))
                in Inr (llama_backend api model_name))))"

section \<open>The token budget\<close>

text \<open>The loop generates no more than it may, and no more than the context has room for.\<close>

definition budget_kept :: "usize \<Rightarrow> ('c, 'b, 's, 'd) gen_state \<Rightarrow> ('c, 'b, 's, 'd) gen_state \<Rightarrow> bool" where
  "budget_kept m s t \<longleftrightarrow> gs_generated t \<le> m \<and> gs_generated s \<le> gs_generated t
     \<and> (gs_n_cur s \<le> CTX_SIZE \<longrightarrow> gs_n_cur s \<le> gs_n_cur t \<and> gs_n_cur t \<le> CTX_SIZE
       \<and> unat (gs_generated t) + unat (gs_n_cur s) = unat (gs_generated s) + unat (gs_n_cur t))"

lemma budget_kept_refl:
  "gs_generated s \<le> m \<Longrightarrow> gs_generated t = gs_generated s \<Longrightarrow> gs_n_cur t = gs_n_cur s \<Longrightarrow>
     budget_kept m s t"
  by (simp add: budget_kept_def)

lemma budget_kept_step:
  assumes lt: "gs_generated s < m" "gs_n_cur s < CTX_SIZE"
    and s': "gs_generated s' = gs_generated s + 1" "gs_n_cur s' = gs_n_cur s + 1"
    and kept: "gs_generated s' \<le> m \<Longrightarrow> budget_kept m s' t"
  shows "budget_kept m s t"
proof -
  note g = word_measure_decreases(2)[OF lt(1)] and n = word_measure_decreases(2)[OF lt(2)]
  have "gs_generated s' \<le> m" using lt(1) g s' by (simp add: word_le_nat_alt word_less_nat_alt)
  with kept show ?thesis
    using lt g n s' by (auto simp: budget_kept_def word_le_nat_alt word_less_nat_alt)
qed

lemma generate_budget:
  "generate api m s = Inr t \<Longrightarrow> gs_generated s \<le> m \<Longrightarrow> budget_kept m s t"
proof (induction api m s rule: generate.induct)
  case (1 api m s)
  obtain smp tok where sm:
    "sampler_sample api (gs_sampler s) (gs_ctx s) (batch_n_tokens api (gs_batch s) - 1) = (smp, tok)"
    by fastforce
  obtain dec piece where pc: "token_to_piece api tok (gs_decoder s) = (dec, piece)" by fastforce
  show ?case
  proof (cases "gs_generated s < m \<and> gs_n_cur s < CTX_SIZE \<and> \<not> is_eog_token api tok")
    case False
    then show ?thesis using "1.prems"
      by (subst (asm) generate.simps) (auto simp: sm intro: budget_kept_refl split: if_splits)
  next
    case True
    with "1.prems" obtain batch ctx batch' where
      ba: "batch_add api (batch_clear api (gs_batch s)) tok (gs_n_cur s) True = Inr batch"
      and cd: "ctx_decode api (gs_ctx s) batch = Inr (ctx, batch')"
      by (subst (asm) generate.simps) (auto simp: sm pc split: sum.splits)
    define s' where "s' = \<lparr>gs_ctx = ctx, gs_batch = batch', gs_sampler = smp, gs_decoder = dec,
      gs_output = gs_output s @ (case piece of None \<Rightarrow> [] | Some p \<Rightarrow> p),
      gs_n_cur = gs_n_cur s + 1, gs_generated = gs_generated s + 1\<rparr>"
    have "generate api m s' = Inr t"
      using "1.prems" True by (subst (asm) generate.simps) (simp add: sm pc ba cd s'_def)
    then have "gs_generated s' \<le> m \<Longrightarrow> budget_kept m s' t"
      using "1.IH"[OF _ sm[symmetric] _ pc[symmetric] ba cd refl] True
      by (auto simp: s'_def)
    with True show ?thesis by (intro budget_kept_step[of s m s']) (auto simp: s'_def)
  qed
qed

lemma llama_infer_budget:
  assumes "llama_infer api model p m = Inr out"
  shows "tokens_generated out \<le> m"
proof -
  from assms obtain s t where "generate api m s = Inr t" "gs_generated s = 0"
    "tokens_generated out = gs_generated t"
    by (auto simp: llama_infer_def split: sum.splits)
  with generate_budget[of api m s t] show ?thesis by (simp add: budget_kept_def)
qed

text \<open>The interface the edge agent relies on.\<close>

locale token_budget =
  fixes infer :: "string \<Rightarrow> usize \<Rightarrow> backend \<times> (agent_error + inference_output)"
  assumes budget: "infer p m = (b', Inr out) \<Longrightarrow> tokens_generated out \<le> m"
begin

lemma shown_tokens: "infer p m = (b', Inr out) \<Longrightarrow> read_nat (show_word (tokens_generated out)) \<le> unat m"
  using budget by (simp add: show_word_def word_le_nat_alt)

end

interpretation simulated: token_budget "backend_infer simulated_backend"
  by unfold_locales (auto simp: simulated_output_def)

interpretation llama: token_budget "backend_infer (llama_backend api model)" for api model
  by unfold_locales (auto dest: llama_infer_budget)

section \<open>Texts\<close>

text \<open>
  A backend gives texts for texts, now and ever after. The binding's strings are texts by their
  types: the pieces of tokens and the printed errors.
\<close>

fun text_result :: "agent_error + inference_output \<Rightarrow> bool" where
  "text_result (Inl e) = is_text (show_agent_error e)"
| "text_result (Inr out) = (is_text (out_text out) \<and> is_text (out_model_name out))"

coinductive text_backend :: "backend \<Rightarrow> bool" where
  text_backend: "is_text (backend_name b)
    \<Longrightarrow> (\<And>p m b' r. is_text p \<Longrightarrow> backend_infer b p m = (b', r) \<Longrightarrow> text_result r \<and> text_backend b')
    \<Longrightarrow> text_backend b"

inductive_cases text_backendE: "text_backend b"

definition api_texts :: "('ctx, 'batch, 'tok, 'smp, 'dec) llama_api \<Rightarrow> bool" where
  "api_texts api \<longleftrightarrow> (\<forall>n e. new_context api n = Inl e \<longrightarrow> is_text e)
     \<and> (\<forall>p e. str_to_token api p = Inl e \<longrightarrow> is_text e)
     \<and> (\<forall>b t i l e. batch_add api b t i l = Inl e \<longrightarrow> is_text e)
     \<and> (\<forall>c b e. ctx_decode api c b = Inl e \<longrightarrow> is_text e)
     \<and> (\<forall>t d d' p. token_to_piece api t d = (d', Some p) \<longrightarrow> is_text p)"

lemma show_agent_error_text [text_intros]: "is_text s \<Longrightarrow> is_text (show_agent_error (InferenceFailed s))"
  by simp

lemma batch_fill_text:
  assumes "api_texts api" and "batch_fill api l b i toks = Inl e"
  shows "is_text (show_agent_error e)"
  using assms
proof (induction api l b i toks rule: batch_fill.induct)
  case (2 api l b i t ts)
  then show ?case by (auto simp: api_texts_def text_intros split: sum.splits)
qed simp

lemma generate_text:
  assumes "api_texts api" and "is_text (gs_output s)" and "generate api m s = r"
  shows "case r of Inl e \<Rightarrow> is_text (show_agent_error e) | Inr t \<Rightarrow> is_text (gs_output t)"
  using assms
proof (induction api m s arbitrary: r rule: generate.induct)
  case (1 api m s)
  obtain smp tok where sm:
    "sampler_sample api (gs_sampler s) (gs_ctx s) (batch_n_tokens api (gs_batch s) - 1) = (smp, tok)"
    by fastforce
  obtain dec piece where pc: "token_to_piece api tok (gs_decoder s) = (dec, piece)" by fastforce
  have out: "is_text (gs_output s @ (case piece of None \<Rightarrow> [] | Some p \<Rightarrow> p))"
    using "1.prems"(1,2) pc by (auto simp: api_texts_def text_intros split: option.splits)
  show ?case
  proof (cases "gs_generated s < m \<and> gs_n_cur s < CTX_SIZE \<and> \<not> is_eog_token api tok")
    case False
    then show ?thesis using "1.prems"
      by (subst (asm) generate.simps) (auto simp: sm split: if_splits)
  next
    case True
    show ?thesis
    proof (cases "batch_add api (batch_clear api (gs_batch s)) tok (gs_n_cur s) True")
      case (Inl e)
      then show ?thesis
        using "1.prems" True by (subst (asm) generate.simps) (auto simp: sm pc api_texts_def text_intros)
    next
      case ba: (Inr batch)
      show ?thesis
      proof (cases "ctx_decode api (gs_ctx s) batch")
        case (Inl e)
        then show ?thesis
          using "1.prems" True ba by (subst (asm) generate.simps) (auto simp: sm pc api_texts_def text_intros)
      next
        case (Inr cb)
        obtain ctx batch' where cb: "cb = (ctx, batch')" by fastforce
        then show ?thesis
          using "1.IH"[OF _ sm[symmetric] _ pc[symmetric] ba Inr[unfolded cb] refl "1.prems"(1)] "1.prems"(3) True out Inr
          by (subst (asm) generate.simps) (simp add: sm pc ba)
      qed
    qed
  qed
qed

lemma llama_infer_text:
  assumes "api_texts api" and "is_text model"
  shows "text_result (llama_infer api model p m)"
proof -
  have gen: "is_text (gs_output s) \<Longrightarrow> generate api m s = Inl e \<Longrightarrow> is_text (show_agent_error e)"
    "is_text (gs_output s) \<Longrightarrow> generate api m s = Inr t \<Longrightarrow> is_text (gs_output t)" for s t e
    using generate_text[OF assms(1) _ refl, of s m] by auto
  show ?thesis
    using assms
    by (auto simp: llama_infer_def api_texts_def text_intros
        dest: batch_fill_text[OF assms(1)] gen[rotated] split: sum.splits)
qed

lemma simulated_backend_text: "text_backend simulated_backend"
  by (coinduction rule: text_backend.coinduct) (auto simp: simulated_output_def)

lemma llama_backend_text:
  assumes "api_texts api" and "is_text model"
  shows "text_backend (llama_backend api model)"
  using assms
  by (coinduction rule: text_backend.coinduct) (auto intro: llama_infer_text)

end
