(* ===== verification/EdgeAgent.thy ===== *)
theory EdgeAgent
  imports Inference
begin

text \<open>
  The edge agent (\<^verbatim>\<open>crates/edge-agent/src/lib.rs\<close>): its state, the classification of the network,
  the mode transitions with their callback, and the processing of a telemetry frame by cloud
  offload or local inference. A step relation covers everything a client can call; the invariant
  of its reachable states ties the mode to the last network quality, the counters to each other
  and the context buffer to the frame counter. Clock readings and random draws are arguments.
\<close>

section \<open>State\<close>

datatype inference_source = Cloud | Local | Hybrid

record inference_result =
  action :: string
  confidence :: f32
  ir_metadata :: "string \<rightharpoonup> string"
  ir_timestamp :: u64
  ir_source :: inference_source

record agent_stats =
  frames_processed :: u64
  cloud_offloads :: u64
  local_inferences :: u64
  mode_transitions :: u64
  probe_count :: u64

record edge_agent =
  ag_mode :: agent_mode
  ag_quality :: network_quality
  ag_buffer :: context_buffer
  ag_callback :: bool
  ag_last_mode :: agent_mode
  ag_probe_interval :: u64
  ag_running :: bool
  ag_frame_counter :: u64
  ag_stats :: agent_stats
  ag_backend :: backend

definition agent_new :: "u64 \<Rightarrow> edge_agent" where
  "agent_new probe_interval_secs =
     \<lparr>ag_mode = Online,
      ag_quality = \<lparr>latency_ms = f64_lit 0, packet_loss_pct = f64_lit 0, jitter_ms = f64_lit 0,
                    bandwidth_mbps = f64_lit 0, measured_at = 0\<rparr>,
      ag_buffer = buffer_new 100 (10 * 1024 * 1024),
      ag_callback = False, ag_last_mode = Online, ag_probe_interval = probe_interval_secs,
      ag_running = False, ag_frame_counter = 0,
      ag_stats = \<lparr>frames_processed = 0, cloud_offloads = 0, local_inferences = 0,
                  mode_transitions = 0, probe_count = 0\<rparr>,
      ag_backend = simulated_backend\<rparr>"

definition set_local_backend :: "edge_agent \<Rightarrow> backend \<Rightarrow> edge_agent" where
  "set_local_backend a b = a\<lparr>ag_backend := b\<rparr>"

definition set_mode_change_callback :: "edge_agent \<Rightarrow> edge_agent" where
  "set_mode_change_callback a = a\<lparr>ag_callback := True\<rparr>"

section \<open>Network quality and modes\<close>

text \<open>
  The simulated probe; \<open>r1\<close>, \<open>r2\<close>, \<open>r3\<close> are the draws of \<^verbatim>\<open>rand::random::<f64>()\<close>, in the order the
  code makes them.
\<close>

definition probe_network_quality :: "f64 \<Rightarrow> f64 \<Rightarrow> f64 \<Rightarrow> u64 \<Rightarrow> edge_agent
    \<Rightarrow> edge_agent \<times> network_quality" where
  "probe_network_quality r1 r2 r3 now a =
     (a\<lparr>ag_stats := (ag_stats a)\<lparr>probe_count := probe_count (ag_stats a) + 1\<rparr>\<rparr>,
      \<lparr>latency_ms = fp_add binary64 (f64_lit 45) (fp_mul binary64 r1 (f64_lit 20)),
       packet_loss_pct = fp_mul binary64 r2 (f64_lit 2),
       jitter_ms = fp_mul binary64 r3 (f64_lit 10),
       bandwidth_mbps = f64_lit 100,
       measured_at = now\<rparr>)"

definition determine_mode :: "edge_agent \<Rightarrow> agent_mode" where
  "determine_mode a =
     (if is_offline (ag_quality a) then Offline
      else if is_degraded (ag_quality a) then Degraded
      else Online)"

text \<open>A transition yields the agent and the calls it makes of the callback, with their arguments.\<close>

type_synonym callback_calls = "(agent_mode \<times> agent_mode) list"

definition transition_mode :: "edge_agent \<Rightarrow> agent_mode \<Rightarrow> edge_agent \<times> callback_calls" where
  "transition_mode a new_mode =
     (let old_mode = ag_mode a;
          a1 = a\<lparr>ag_mode := Transitioning\<rparr>;
          a2 = (case new_mode of
                  Online \<Rightarrow> a1\<lparr>ag_buffer := buffer_clear (ag_buffer a1)\<rparr>
                | Degraded \<Rightarrow> a1
                | Offline \<Rightarrow> a1
                | Transitioning \<Rightarrow> a1);
          a3 = a2\<lparr>ag_mode := new_mode, ag_last_mode := old_mode,
                  ag_stats := (ag_stats a2)\<lparr>mode_transitions := mode_transitions (ag_stats a2) + 1\<rparr>\<rparr>
      in (a3, if ag_callback a3 then [(old_mode, new_mode)] else []))"

definition update_network_quality :: "edge_agent \<Rightarrow> network_quality \<Rightarrow> edge_agent \<times> callback_calls" where
  "update_network_quality a q =
     (let a1 = a\<lparr>ag_quality := q\<rparr>; new_mode = determine_mode a1
      in if new_mode \<noteq> ag_mode a1 then transition_mode a1 new_mode else (a1, []))"

section \<open>Processing a frame\<close>

definition can_reach_cloud :: "edge_agent \<Rightarrow> bool" where
  "can_reach_cloud a \<longleftrightarrow> \<not> is_offline (ag_quality a)"

definition process_cloud_offload :: "telemetry_frame \<Rightarrow> u64 \<Rightarrow> inference_result" where
  "process_cloud_offload frame now =
     \<lparr>action = ''CLOUD_ANALYSIS_COMPLETE'', confidence = f32_lit (95 / 100),
      ir_metadata = [''model'' \<mapsto> ''qwen-max''], ir_timestamp = now, ir_source = Cloud\<rparr>"

definition local_prompt :: "telemetry_frame \<Rightarrow> string" where
  "local_prompt frame = ''Telemetry from '' @ source_ip frame @ '': ''
     @ from_utf8_lossy (payload frame) @ [CHR 0x0A] @ ''Safety assessment:''"

definition process_local_inference :: "edge_agent \<Rightarrow> telemetry_frame \<Rightarrow> u64
    \<Rightarrow> edge_agent \<times> inference_result" where
  "process_local_inference a frame now =
     (case backend_infer (ag_backend a) (local_prompt frame) 32 of (b, r) \<Rightarrow>
        (a\<lparr>ag_backend := b\<rparr>,
         case r of
           Inr output \<Rightarrow>
             \<lparr>action = trim (out_text output), confidence = f32_lit (3 / 4),
              ir_metadata = [''model'' \<mapsto> out_model_name output,
                             ''backend'' \<mapsto> backend_name b,
                             ''tokens'' \<mapsto> show_word (tokens_generated output)],
              ir_timestamp = now, ir_source = Local\<rparr>
         | Inl e \<Rightarrow>
             \<lparr>action = ''INFERENCE_ERROR'', confidence = f32_lit 0,
              ir_metadata = [''error'' \<mapsto> show_agent_error e],
              ir_timestamp = now, ir_source = Local\<rparr>))"

definition count_cloud :: "edge_agent \<Rightarrow> edge_agent" where
  "count_cloud a = a\<lparr>ag_stats := (ag_stats a)\<lparr>cloud_offloads := cloud_offloads (ag_stats a) + 1\<rparr>\<rparr>"

definition count_local :: "edge_agent \<Rightarrow> edge_agent" where
  "count_local a = a\<lparr>ag_stats := (ag_stats a)\<lparr>local_inferences := local_inferences (ag_stats a) + 1\<rparr>\<rparr>"

definition process_frame :: "edge_agent \<Rightarrow> telemetry_frame \<Rightarrow> u64 \<Rightarrow> edge_agent \<times> inference_result" where
  "process_frame a frame0 now =
     (let a1 = a\<lparr>ag_frame_counter := ag_frame_counter a + 1\<rparr>;
          frame = frame0\<lparr>frame_id := ag_frame_counter a1\<rparr>;
          a2 = a1\<lparr>ag_stats := (ag_stats a1)\<lparr>frames_processed := frames_processed (ag_stats a1) + 1\<rparr>,
                  ag_buffer := buffer_push (ag_buffer a1) frame\<rparr>
      in case ag_mode a2 of
           Online \<Rightarrow> (count_cloud a2, process_cloud_offload frame now)
         | Degraded \<Rightarrow>
             if can_reach_cloud a2 then (count_cloud a2, process_cloud_offload frame now)
             else process_local_inference (count_local a2) frame now
         | Offline \<Rightarrow> process_local_inference (count_local a2) frame now
         | Transitioning \<Rightarrow>
             (a2, \<lparr>action = ''BUFFERED'', confidence = f32_lit 0, ir_metadata = Map.empty,
                   ir_timestamp = now, ir_source = Local\<rparr>))"

definition agent_current_mode :: "edge_agent \<Rightarrow> agent_mode" where
  "agent_current_mode a = ag_mode a"

definition agent_network_quality :: "edge_agent \<Rightarrow> network_quality" where
  "agent_network_quality a = ag_quality a"

definition agent_get_stats :: "edge_agent \<Rightarrow> agent_stats" where
  "agent_get_stats a = ag_stats a"

definition agent_stop :: "edge_agent \<Rightarrow> edge_agent" where
  "agent_stop a = a\<lparr>ag_running := False\<rparr>"

text \<open>
  The thread \<^verbatim>\<open>start_monitoring\<close> spawns sleeps once for each time it reads the running flag as set;
  the argument is the sequence of its readings.
\<close>

fun monitor_sleeps :: "bool list \<Rightarrow> nat" where
  "monitor_sleeps [] = 0"
| "monitor_sleeps (flag # flags) = (if flag then Suc (monitor_sleeps flags) else 0)"

section \<open>Classification\<close>

lemma determine_mode_iff:
  "determine_mode a = Offline \<longleftrightarrow> is_offline (ag_quality a)"
  "determine_mode a = Online \<longleftrightarrow> \<not> is_degraded (ag_quality a)"
  "determine_mode a = Degraded \<longleftrightarrow> is_degraded (ag_quality a) \<and> \<not> is_offline (ag_quality a)"
  "determine_mode a \<noteq> Transitioning"
  using offline_imp_degraded by (auto simp: determine_mode_def)

text \<open>\<open>q'\<close> is nowhere better than \<open>q\<close>.\<close>

definition no_better :: "network_quality \<Rightarrow> network_quality \<Rightarrow> bool" where
  "no_better q' q \<longleftrightarrow> latency_ms q \<le> latency_ms q' \<and> packet_loss_pct q \<le> packet_loss_pct q'
     \<and> jitter_ms q \<le> jitter_ms q'"

lemma no_better_mono:
  assumes "no_better q' q"
  shows "is_degraded q \<Longrightarrow> is_degraded q'" "is_offline q \<Longrightarrow> is_offline q'"
  using assms fp_less_le_trans by (auto simp: no_better_def is_degraded_def is_offline_def)

section \<open>Reachable states\<close>

text \<open>
  Everything a client can do with an agent: probe, report a network quality, process a frame,
  change the backend, set a callback, stop it, and write the shared flag through the handle
  \<^verbatim>\<open>start_monitoring\<close> returns. A step carries the callback calls it makes.
\<close>

inductive agent_step :: "edge_agent \<Rightarrow> callback_calls \<Rightarrow> edge_agent \<Rightarrow> bool" where
  probe: "probe_network_quality r1 r2 r3 now a = (a', q) \<Longrightarrow> agent_step a [] a'"
| update: "update_network_quality a q = (a', calls) \<Longrightarrow> agent_step a calls a'"
| frame: "frame_ok f \<Longrightarrow> process_frame a f now = (a', r) \<Longrightarrow> agent_step a [] a'"
| backend: "agent_step a [] (set_local_backend a b)"
| callback: "agent_step a [] (set_mode_change_callback a)"
| stop: "agent_step a [] (agent_stop a)"
| flag: "agent_step a [] (a\<lparr>ag_running := v\<rparr>)"

text \<open>The states a new agent reaches, with all callback calls made on the way.\<close>

inductive agent_reach :: "u64 \<Rightarrow> callback_calls \<Rightarrow> edge_agent \<Rightarrow> bool" where
  init: "agent_reach secs [] (agent_new secs)"
| step: "agent_reach secs tr a \<Longrightarrow> agent_step a calls a' \<Longrightarrow> agent_reach secs (tr @ calls) a'"

subsection \<open>What each operation does to each field\<close>

lemmas agent_op_defs = probe_network_quality_def set_local_backend_def set_mode_change_callback_def
  agent_stop_def count_cloud_def count_local_def

lemma process_local_inference_frame:
  "process_local_inference a f now = (a', r) \<Longrightarrow>
     \<exists>b. a' = a\<lparr>ag_backend := b\<rparr> \<and> ir_source r = Local \<and> ir_timestamp r = now"
  by (auto simp: process_local_inference_def split: prod.splits sum.splits)

lemma process_frame_effect:
  assumes "process_frame a f now = (a', r)"
  shows "ag_mode a' = ag_mode a" "ag_quality a' = ag_quality a" "ag_callback a' = ag_callback a"
    and "ag_frame_counter a' = ag_frame_counter a + 1"
    and "ag_buffer a' = buffer_push (ag_buffer a) (f\<lparr>frame_id := ag_frame_counter a + 1\<rparr>)"
    and "frames_processed (ag_stats a') = frames_processed (ag_stats a) + 1"
    and "mode_transitions (ag_stats a') = mode_transitions (ag_stats a)"
    and "ag_mode a = Online \<or> ag_mode a = Degraded \<and> \<not> is_offline (ag_quality a) \<Longrightarrow>
      ir_source r = Cloud \<and> cloud_offloads (ag_stats a') = cloud_offloads (ag_stats a) + 1
      \<and> local_inferences (ag_stats a') = local_inferences (ag_stats a)"
    and "ag_mode a = Offline \<or> ag_mode a = Degraded \<and> is_offline (ag_quality a) \<Longrightarrow>
      ir_source r = Local \<and> local_inferences (ag_stats a') = local_inferences (ag_stats a) + 1
      \<and> cloud_offloads (ag_stats a') = cloud_offloads (ag_stats a)"
  using assms
  by (auto simp: process_frame_def Let_def can_reach_cloud_def count_cloud_def count_local_def
      process_cloud_offload_def dest!: process_local_inference_frame
      split: agent_mode.splits if_splits)

lemma update_network_quality_effect:
  assumes "update_network_quality a q = (a', calls)"
  shows "ag_quality a' = q" "ag_mode a' = determine_mode a'" "ag_callback a' = ag_callback a"
    and "ag_frame_counter a' = ag_frame_counter a"
    and "ag_stats a' = (ag_stats a)\<lparr>mode_transitions :=
      mode_transitions (ag_stats a) + (if ag_mode a' = ag_mode a then 0 else 1)\<rparr>"
    and "ag_buffer a' = (if ag_mode a' = Online \<and> ag_mode a \<noteq> Online
      then buffer_clear (ag_buffer a) else ag_buffer a)"
    and "calls = (if ag_callback a \<and> ag_mode a' \<noteq> ag_mode a then [(ag_mode a, ag_mode a')] else [])"
  using assms
  by (auto simp: update_network_quality_def transition_mode_def Let_def determine_mode_def
      split: agent_mode.splits if_splits)

subsection \<open>The invariant\<close>

text \<open>The identifiers of the \<open>n\<close> most recent frames, newest first.\<close>

fun ids_down :: "u64 \<Rightarrow> nat \<Rightarrow> u64 list" where
  "ids_down c 0 = []"
| "ids_down c (Suc n) = c # ids_down (c - 1) n"

lemma take_ids_down: "take m (ids_down c n) = ids_down c (min m n)"
proof (induction n arbitrary: c m)
  case (Suc n)
  then show ?case by (cases m) auto
qed simp

lemma length_ids_down [simp]: "length (ids_down c n) = n"
  by (induction n arbitrary: c) auto

definition buffered_ids :: "edge_agent \<Rightarrow> u64 list" where
  "buffered_ids a = rev (map frame_id (frames (ag_buffer a)))"

definition agent_inv :: "edge_agent \<Rightarrow> bool" where
  "agent_inv a \<longleftrightarrow> ag_mode a = determine_mode a
     \<and> buffer_inv (ag_buffer a) \<and> max_frames (ag_buffer a) = 100
     \<and> max_bytes (ag_buffer a) = 10 * 1024 * 1024
     \<and> (payload_bytes (frames (ag_buffer a)) \<le> 10 * 1024 * 1024 \<or> length (frames (ag_buffer a)) = 1)
     \<and> buffered_ids a = ids_down (ag_frame_counter a) (length (frames (ag_buffer a)))
     \<and> frames_processed (ag_stats a) = ag_frame_counter a
     \<and> cloud_offloads (ag_stats a) + local_inferences (ag_stats a) = ag_frame_counter a"

definition calls_inv :: "callback_calls \<Rightarrow> edge_agent \<Rightarrow> bool" where
  "calls_inv tr a \<longleftrightarrow> (tr \<noteq> [] \<longrightarrow> ag_callback a \<and> snd (last tr) = ag_mode a)
     \<and> successively (\<lambda>c d. snd c = fst d) tr
     \<and> list_all (\<lambda>(m, n). m \<noteq> n \<and> m \<noteq> Transitioning \<and> n \<noteq> Transitioning) tr"

lemma agent_inv_new: "agent_inv (agent_new secs)"
  by (simp add: agent_inv_def agent_new_def determine_mode_def is_offline_def is_degraded_def
      buffered_ids_def buffer_inv_def buffer_new_def isize_max_def)

lemma agent_inv_frame:
  assumes inv: "agent_inv a" and f: "frame_ok f" and p: "process_frame a f now = (a', r)"
  shows "agent_inv a'"
proof -
  note eff = process_frame_effect[OF p]
  let ?f = "f\<lparr>frame_id := ag_frame_counter a + 1\<rparr>"
  have b: "buffer_inv (ag_buffer a)" and ok: "frame_ok ?f"
    using inv f by (simp_all add: agent_inv_def frame_ok_def)
  have buf: "ag_buffer a' = buffer_push (ag_buffer a) ?f" by (rule eff)
  obtain k where k: "frames (ag_buffer a') = drop k (frames (ag_buffer a)) @ [?f]"
    using ctx.contents_push[OF b ok] buf by auto
  have "payload_bytes (frames (ag_buffer a')) \<le> 10 * 1024 * 1024 \<or> length (frames (ag_buffer a')) = 1"
  proof -
    have mb: "unat (max_bytes (ag_buffer a)) = 10 * 1024 * 1024"
      using inv by (simp add: agent_inv_def)
    show ?thesis
      using fitting_suffix_room[of "unat (max_frames (ag_buffer a))" "10 * 1024 * 1024"
          "length (payload f)" "frames (ag_buffer a)"]
      unfolding buf buffer_push_spec(1)[OF b ok] by (auto simp: has_room_def mb)
  qed
  moreover have "buffered_ids a' = ids_down (ag_frame_counter a') (length (frames (ag_buffer a')))"
  proof -
    have "buffered_ids a' = (ag_frame_counter a + 1)
        # take (length (frames (ag_buffer a)) - k) (buffered_ids a)"
      by (simp add: buffered_ids_def k rev_drop flip: drop_map)
    also have "buffered_ids a = ids_down (ag_frame_counter a) (length (frames (ag_buffer a)))"
      using inv by (simp add: agent_inv_def)
    finally show ?thesis by (simp add: take_ids_down k eff(4))
  qed
  moreover have "cloud_offloads (ag_stats a') + local_inferences (ag_stats a') = ag_frame_counter a'"
    using inv eff(4,8,9) determine_mode_iff[of a]
    by (cases "ag_mode a") (auto simp: agent_inv_def algebra_simps)
  moreover have "ag_mode a' = determine_mode a'"
    using inv eff(1,2) by (simp add: agent_inv_def determine_mode_def)
  ultimately show ?thesis
    using inv eff(4,6) buffer_push_inv[OF b ok] by (simp add: agent_inv_def buf)
qed

lemma agent_inv_update:
  assumes inv: "agent_inv a" and u: "update_network_quality a q = (a', calls)"
  shows "agent_inv a'"
  using inv update_network_quality_effect[OF u] buffer_clear_inv[of "ag_buffer a"]
  by (auto simp: agent_inv_def buffered_ids_def buffer_clear_def)

lemma agent_inv_step: "agent_step a calls a' \<Longrightarrow> agent_inv a \<Longrightarrow> agent_inv a'"
proof (induction rule: agent_step.induct)
  case (update a q a' calls)
  then show ?case by (blast intro: agent_inv_update)
next
  case (frame f a now a' r)
  then show ?case by (blast intro: agent_inv_frame)
qed (auto simp: agent_inv_def agent_op_defs determine_mode_def buffered_ids_def)

lemma calls_inv_step:
  assumes "agent_step a calls a'" "agent_inv a" "calls_inv tr a"
  shows "calls_inv (tr @ calls) a'"
  using assms
proof (induction rule: agent_step.induct)
  case (update a q a' calls)
  have "ag_mode a \<noteq> Transitioning" "ag_mode a' \<noteq> Transitioning"
    using update determine_mode_iff(4) update_network_quality_effect(2)
    by (auto simp: agent_inv_def)
  then show ?case
    using update update_network_quality_effect[OF update.hyps]
    by (auto simp: calls_inv_def successively_append_iff)
next
  case (frame f a now a' r)
  then show ?case using process_frame_effect[OF frame.hyps(2)] by (simp add: calls_inv_def)
qed (auto simp: calls_inv_def agent_op_defs)

lemma agent_reach_inv: "agent_reach secs tr a \<Longrightarrow> agent_inv a \<and> calls_inv tr a"
proof (induction rule: agent_reach.induct)
  case (init secs)
  show ?case by (simp add: agent_inv_new calls_inv_def)
next
  case (step secs tr a calls a')
  then show ?case using agent_inv_step calls_inv_step by blast
qed

section \<open>Properties\<close>

text \<open>
  Concrete runs for the witnesses: a frame, an offline network, and the agent that was told of it
  with a callback set.
\<close>

definition wit_frame :: telemetry_frame where
  "wit_frame = \<lparr>frame_id = 0, source_ip = ''10.0.0.1'', dest_ip = None, timestamp_ns = 0,
     payload = [1, 2, 3, 4], metadata = default_metadata\<rparr>"

definition wit_offline :: network_quality where
  "wit_offline = \<lparr>latency_ms = f64_lit 6000, packet_loss_pct = NaN, jitter_ms = f64_lit 0,
     bandwidth_mbps = f64_lit 0, measured_at = 0\<rparr>"

definition wit_agent :: edge_agent where
  "wit_agent = fst (update_network_quality (set_mode_change_callback (agent_new 5)) wit_offline)"

lemma wit_frame_ok: "frame_ok wit_frame"
  by (simp add: frame_ok_def wit_frame_def isize_max_def)

lemma wit_offline_offline: "is_offline wit_offline"
  by (simp add: is_offline_def wit_offline_def)

lemma wit_agent_update:
  "update_network_quality (set_mode_change_callback (agent_new 5)) wit_offline
     = (wit_agent, [(Online, Offline)])"
  by (simp add: wit_agent_def update_network_quality_def transition_mode_def determine_mode_def
      wit_offline_offline set_mode_change_callback_def agent_new_def)

lemma wit_agent_reach: "agent_reach 5 [(Online, Offline)] wit_agent"
proof -
  have "agent_reach 5 [] (set_mode_change_callback (agent_new 5))"
    using agent_reach.step[OF agent_reach.init agent_step.callback] by simp
  from agent_reach.step[OF this agent_step.update[OF wit_agent_update]] show ?thesis by simp
qed

lemma wit_agent_sel [simp]:
  "ag_mode wit_agent = Offline" "ag_quality wit_agent = wit_offline"
  "ag_backend wit_agent = simulated_backend"
  by (simp_all add: wit_agent_def update_network_quality_def transition_mode_def determine_mode_def
      wit_offline_offline set_mode_change_callback_def agent_new_def)

subsection \<open>Modes\<close>

text \<open>A network that is nowhere better in latency, loss and jitter (infinities included) is
  never classified with a less severe mode: \<open>determine_mode\<close> is monotone.\<close>

lemma determine_mode_monotone:
  assumes "no_better (ag_quality a') (ag_quality a)"
  shows "determine_mode a \<le> determine_mode a'"
  using no_better_mono[OF assms]
  by (auto simp: determine_mode_def less_eq_agent_mode_def)

text \<open>C6: In every state an agent can reach, the operating mode is the classification of the last
  reported network quality, and a client never sees the mode \<open>Transitioning\<close>.\<close>

theorem agent_mode_tracks_network:
  assumes "agent_reach secs tr a"
  shows "ag_mode a = determine_mode a \<and> ag_mode a \<noteq> Transitioning"
  using agent_reach_inv[OF assms] determine_mode_iff(4)[of a] by (simp add: agent_inv_def)

theorem agent_mode_tracks_network_witness:
  "ag_mode wit_agent = determine_mode wit_agent \<and> ag_mode wit_agent \<noteq> Transitioning"
  by (rule agent_mode_tracks_network[OF wit_agent_reach])

text \<open>C22: The callback sees a gap-free path of the modes: each call reports a real change between
  two settled modes, starts where the one before it ended, and the last one ends at the current
  mode.\<close>

theorem callback_path:
  assumes "agent_reach secs tr a"
  shows "successively (\<lambda>c d. snd c = fst d) tr
    \<and> list_all (\<lambda>(m, n). m \<noteq> n \<and> m \<noteq> Transitioning \<and> n \<noteq> Transitioning) tr
    \<and> (tr = [] \<or> snd (last tr) = ag_mode a)"
  using agent_reach_inv[OF assms] by (auto simp: calls_inv_def)

theorem callback_path_witness:
  "snd (last [(Online, Offline)]) = ag_mode wit_agent"
  using callback_path[OF wit_agent_reach] by simp

text \<open>Coming back online empties the context buffer and offloads nothing: the frames spooled
  while the cloud was out of reach are dropped, and no counter but the number of transitions
  changes.\<close>

lemma back_online_drops_spooled_frames:
  assumes "agent_reach secs tr a" and "ag_mode a \<noteq> Online" and "\<not> is_degraded q"
    and "update_network_quality a q = (a', calls)"
  shows "ag_mode a' = Online \<and> frames (ag_buffer a') = [] \<and> total_bytes (ag_buffer a') = 0
    \<and> ag_stats a' = (ag_stats a)\<lparr>mode_transitions := mode_transitions (ag_stats a) + 1\<rparr>"
  using update_network_quality_effect[OF assms(4)] determine_mode_iff(2)[of a'] assms(2,3)
  by (simp add: buffer_clear_def)

lemma initial_not_degraded: "\<not> is_degraded (ag_quality (agent_new secs))"
  by (simp add: is_degraded_def agent_new_def)

definition unit_draw :: "f64 \<Rightarrow> bool" where
  "unit_draw r \<longleftrightarrow> fp_in binary64 r \<and> Fin 0 \<le> r \<and> r < Fin 1"

lemma probe_component:
  assumes "unit_draw r" and n: "0 \<le> n" "n \<le> 2 ^ 53"
  shows "\<exists>x. fp_mul binary64 r (f64_lit (of_int n)) = Fin x \<and> 0 \<le> x \<and> x \<le> of_int n"
proof -
  obtain q where q: "r = Fin q" "0 \<le> q" "q < 1"
    using assms(1) by (cases r) (auto simp: unit_draw_def)
  have pos: "(0 :: rat) \<le> of_int n" and small: "(of_int n :: rat) \<le> of_int (2 ^ 53)"
    using n by (simp_all only: of_int_le_iff of_int_0_le_iff)
  have "q * of_int n \<le> of_int n" using q pos by (simp add: mult_left_le_one_le)
  then have f: "0 \<le> fround binary64 (q * of_int n)" "fround binary64 (q * of_int n) \<le> of_int n"
    using fround64_between[of 0 "of_int n" "q * of_int n"] q pos n fround64_int[of n] by simp_all
  then have "\<bar>fround binary64 (q * of_int n)\<bar> \<le> 2 ^ 64" using small by (simp add: abs_le_iff)
  then show ?thesis using q f n by (simp add: f64_lit_of_int fp_of_rat_Fin)
qed

text \<open>Whatever bytes a frame carries, a backend gets text for it and its result is text.\<close>

lemma local_prompt_text: "is_text (source_ip f) \<Longrightarrow> is_text (local_prompt f)"
  by (simp add: local_prompt_def text_intros)

lemma process_frame_text:
  assumes "process_frame a f now = (a', r)" and "text_backend (ag_backend a)" and "is_text (source_ip f)"
  shows "text_backend (ag_backend a') \<and> is_text (action r) \<and> (\<forall>v \<in> ran (ir_metadata r). is_text v)"
proof -
  have infer: "text_result res \<and> text_backend b \<and> is_text (backend_name b)"
    if "backend_infer (ag_backend a) (local_prompt (f\<lparr>frame_id := i\<rparr>)) 32 = (b, res)" for i b res
    using assms(2,3) that local_prompt_text[of "f\<lparr>frame_id := i\<rparr>"] by (auto elim!: text_backendE)
  show ?thesis
    using assms
    by (auto simp: process_frame_def Let_def process_cloud_offload_def process_local_inference_def
        count_cloud_def count_local_def text_intros ran_def dest!: infer
        split: agent_mode.splits if_splits prod.splits sum.splits)
qed

text \<open>A probed network is never degraded: whatever the random draws from \<open>[0, 1)\<close>, rounding
  included, reporting the probe's result puts the agent online.\<close>

lemma probe_puts_agent_online:
  assumes "unit_draw r1" "unit_draw r2" "unit_draw r3"
    and "probe_network_quality r1 r2 r3 now a = (a1, q)"
  shows "\<not> is_degraded q \<and> ag_mode (fst (update_network_quality a1 q)) = Online"
proof -
  obtain x where x: "fp_mul binary64 r1 (f64_lit 20) = Fin x" "0 \<le> x" "x \<le> 20"
    using probe_component[OF assms(1), of 20] by auto
  obtain y where y: "fp_mul binary64 r2 (f64_lit 2) = Fin y" "y \<le> 2"
    using probe_component[OF assms(2), of 2] by auto
  obtain z where z: "fp_mul binary64 r3 (f64_lit 10) = Fin z" "z \<le> 10"
    using probe_component[OF assms(3), of 10] by auto
  have "fround binary64 (45 + x) \<le> 65" "45 \<le> fround binary64 (45 + x)"
    using fround64_between[of 45 65 "45 + x"] x by simp_all
  then have "\<not> is_degraded q"
    using assms(4) x y z by (auto simp: probe_network_quality_def is_degraded_def fp_of_rat_Fin)
  moreover obtain a' calls where u: "update_network_quality a1 q = (a', calls)" by fastforce
  ultimately show ?thesis
    using update_network_quality_effect(1,2)[OF u] determine_mode_iff(2)[of a'] by simp
qed

subsection \<open>Frames\<close>

text \<open>C9: In a reachable state a frame goes to the cloud exactly when the last reported network is
  not offline, and to the local backend otherwise; the matching counter, and only that one, goes
  up. So the local fallback of degraded mode never runs.\<close>

theorem reachable_frame_routing:
  assumes "agent_reach secs tr a" and "process_frame a f now = (a', r)"
  shows "(if is_offline (ag_quality a)
      then ir_source r = Local
        \<and> local_inferences (ag_stats a') = local_inferences (ag_stats a) + 1
        \<and> cloud_offloads (ag_stats a') = cloud_offloads (ag_stats a)
      else ir_source r = Cloud
        \<and> cloud_offloads (ag_stats a') = cloud_offloads (ag_stats a) + 1
        \<and> local_inferences (ag_stats a') = local_inferences (ag_stats a)
        \<and> ag_backend a' = ag_backend a)"
proof -
  have m: "ag_mode a = determine_mode a"
    using agent_reach_inv[OF assms(1)] by (simp add: agent_inv_def)
  show ?thesis
  proof (cases "is_offline (ag_quality a)")
    case True
    then show ?thesis using process_frame_effect(9)[OF assms(2)] m by (simp add: determine_mode_def)
  next
    case False
    then have "ag_mode a = Online \<or> ag_mode a = Degraded \<and> \<not> is_offline (ag_quality a)"
      using m by (simp add: determine_mode_def)
    moreover from this have "ag_backend a' = ag_backend a"
      using assms(2) by (auto simp: process_frame_def Let_def can_reach_cloud_def count_cloud_def)
    ultimately show ?thesis using process_frame_effect(8)[OF assms(2)] False by simp
  qed
qed

theorem reachable_frame_routing_witness:
  "ir_source (snd (process_frame wit_agent wit_frame 7)) = Local
   \<and> ir_source (snd (process_frame (agent_new 5) wit_frame 7)) = Cloud"
proof -
  obtain a r where r: "process_frame wit_agent wit_frame 7 = (a, r)" by fastforce
  obtain b t where t: "process_frame (agent_new 5) wit_frame 7 = (b, t)" by fastforce
  show ?thesis
    using reachable_frame_routing[OF wit_agent_reach r] reachable_frame_routing[OF agent_reach.init t]
      wit_offline_offline initial_not_degraded[of 5] offline_imp_degraded r t by (auto split: if_splits)
qed

text \<open>The context buffer of a reachable agent holds at most 100 frames, its byte counter is the
  sum of their payloads, and that sum exceeds 10 MiB only when a single frame does.\<close>

lemma agent_buffer_bounds:
  assumes "agent_reach secs tr a"
  shows "length (frames (ag_buffer a)) \<le> 100
    \<and> unat (total_bytes (ag_buffer a)) = payload_bytes (frames (ag_buffer a))
    \<and> (payload_bytes (frames (ag_buffer a)) \<le> 10 * 1024 * 1024 \<or> length (frames (ag_buffer a)) = 1)"
  using agent_reach_inv[OF assms] by (auto simp: agent_inv_def buffer_inv_def max_def split: if_splits)

text \<open>C13: The context buffer of a reachable agent holds the most recent frames it processed: asked
  for the \<open>n\<close> most recent ones, it returns frames numbered from the frame counter downwards
  without a gap.\<close>

theorem recent_frames_numbered:
  assumes "agent_reach secs tr a"
  shows "map frame_id (get_recent (ag_buffer a) n)
    = ids_down (ag_frame_counter a) (min (unat n) (length (frames (ag_buffer a))))"
proof -
  have "map frame_id (get_recent (ag_buffer a) n) = take (unat n) (buffered_ids a)"
    by (simp add: get_recent_def buffered_ids_def take_map rev_map)
  then show ?thesis
    using agent_reach_inv[OF assms] by (simp add: agent_inv_def take_ids_down)
qed

theorem recent_frames_numbered_witness:
  "map frame_id (get_recent (ag_buffer (fst (process_frame wit_agent wit_frame 7))) 1) = [1]"
proof -
  obtain a r where r: "process_frame wit_agent wit_frame 7 = (a, r)" by fastforce
  have "ag_buffer wit_agent = buffer_new 100 (10 * 1024 * 1024)" "ag_frame_counter wit_agent = 0"
    by (simp_all add: wit_agent_def update_network_quality_def transition_mode_def determine_mode_def
        wit_offline_offline set_mode_change_callback_def agent_new_def)
  then have "length (frames (ag_buffer a)) = 1" "ag_frame_counter a = 1"
    using process_frame_effect(4,5)[OF r] by (simp_all add: buffer_push_def buffer_new_def)
  with recent_frames_numbered[OF agent_reach.step[OF wit_agent_reach agent_step.frame[OF wit_frame_ok r]], of 1]
  show ?thesis using r by simp
qed

subsection \<open>Local inference\<close>

lemma offline_frame_local:
  assumes "ag_mode a = Offline"
  shows "\<exists>a1. process_frame a f now = process_local_inference a1
      (f\<lparr>frame_id := ag_frame_counter a + 1\<rparr>) now \<and> ag_backend a1 = ag_backend a"
  using assms
  by (intro exI[of _ "count_local (a\<lparr>ag_frame_counter := ag_frame_counter a + 1,
      ag_stats := (ag_stats a)\<lparr>frames_processed := frames_processed (ag_stats a) + 1\<rparr>,
      ag_buffer := buffer_push (ag_buffer a) (f\<lparr>frame_id := ag_frame_counter a + 1\<rparr>)\<rparr>)"])
     (simp add: process_frame_def Let_def count_local_def)

lemma local_tokens_bound:
  assumes "token_budget (backend_infer (ag_backend a))"
    and "process_local_inference a f now = (a', r)"
    and "ir_metadata r ''tokens'' = Some t"
  shows "read_nat t \<le> 32"
proof -
  obtain b res where i: "backend_infer (ag_backend a) (local_prompt f) 32 = (b, res)" by fastforce
  with assms(2,3) obtain out where o: "res = Inr out" "t = show_word (tokens_generated out)"
    by (auto simp: process_local_inference_def split: sum.splits)
  from token_budget.shown_tokens[OF assms(1)] i o show ?thesis by fastforce
qed

text \<open>C20: An offline agent with the llama.cpp backend reports at most 32 generated tokens with a
  result, whatever the model, the sampler and the prompt do.\<close>

theorem offline_llama_token_budget:
  assumes "ag_mode a = Offline" and "ag_backend a = llama_backend api model"
    and "process_frame a f now = (a', r)" and "ir_metadata r ''tokens'' = Some t"
  shows "read_nat t \<le> 32"
proof -
  obtain a1 where a1: "process_local_inference a1 (f\<lparr>frame_id := ag_frame_counter a + 1\<rparr>) now = (a', r)"
    "ag_backend a1 = llama_backend api model"
    using offline_frame_local[OF assms(1)] assms(2,3) by metis
  have "token_budget (backend_infer (ag_backend a1))"
    unfolding a1(2) by (rule llama.token_budget_axioms)
  from local_tokens_bound[OF this a1(1) assms(4)] show ?thesis .
qed

definition wit_api :: "(unit, nat, nat, nat, unit) llama_api" where
  "wit_api = \<lparr>new_context = (\<lambda>_. Inr ()), str_to_token = (\<lambda>_. Inr [1, 2]), batch_new = (\<lambda>_ _. 0),
     batch_add = (\<lambda>b _ _ _. Inr (b + 1)), batch_clear = (\<lambda>_. 0), batch_n_tokens = of_nat,
     ctx_decode = (\<lambda>c b. Inr (c, b)), sampler_greedy = 0, sampler_sample = (\<lambda>n _ _. (n + 1, n)),
     is_eog_token = (\<lambda>t. t = 1), new_decoder = (), token_to_piece = (\<lambda>t d. (d, Some ''ok''))\<rparr>"

lemma wit_llama_infer:
  "llama_infer wit_api ''m'' p 32
     = Inr \<lparr>out_text = ''ok'', tokens_generated = 1, out_model_name = ''m''\<rparr>"
  by (simp add: llama_infer_def wit_api_def generate.simps CTX_SIZE_def usize_len_def saturating_sub_def)

theorem offline_llama_token_budget_witness:
  "ir_metadata (snd (process_frame (wit_agent\<lparr>ag_backend := llama_backend wit_api ''m''\<rparr>) wit_frame 7))
     ''tokens'' = Some ''1'' \<and> read_nat ''1'' \<le> 32"
proof -
  let ?a = "wit_agent\<lparr>ag_backend := llama_backend wit_api ''m''\<rparr>"
  obtain a' r where r: "process_frame ?a wit_frame 7 = (a', r)" by fastforce
  have one: "show_nat (Suc 0) = ''1''" by code_simp
  have "ir_metadata r ''tokens'' = Some ''1''"
    using r by (auto simp: process_frame_def Let_def count_local_def process_local_inference_def
        wit_llama_infer show_word_def one)
  with offline_llama_token_budget[OF _ _ r, of wit_api "''m''" "''1''"] r show ?thesis by simp
qed

end
