(* ===== verification/FloatText.thy ===== *)
theory FloatText
  imports Float64 Text
begin

text \<open>
  What the standard library does between floating-point numbers and text: \<^verbatim>\<open>str::parse::<f32>\<close> and
  \<^verbatim>\<open>{:.n}\<close> of a float. The hardware detection parses sensor files and prints readings; the time
  helpers print durations. The lemmas bound the distance of the printed decimal from the number.
\<close>

text \<open>The standard library's \<^verbatim>\<open>f32::from_str\<close>: a decimal number, rounded correctly.\<close>

definition parse_exponent :: "string \<Rightarrow> int option" where
  "parse_exponent s =
     (case s of
        [] \<Rightarrow> Some 0
      | c # r \<Rightarrow>
          if c \<noteq> CHR ''e'' \<and> c \<noteq> CHR ''E'' then None
          else (let neg = (r \<noteq> [] \<and> hd r = CHR ''-'');
                    ds = (if r \<noteq> [] \<and> (hd r = CHR ''-'' \<or> hd r = CHR ''+'') then tl r else r)
                in if ds = [] \<or> \<not> list_all is_digit ds then None
                   else Some ((if neg then - 1 else 1) * int (read_nat ds))))"

definition parse_decimal :: "string \<Rightarrow> rat option" where
  "parse_decimal s =
     (let whole = takeWhile is_digit s; r = dropWhile is_digit s;
          (frac, r') = (case r of
             c # t \<Rightarrow> if c = CHR ''.'' then (takeWhile is_digit t, dropWhile is_digit t) else ([], r)
           | [] \<Rightarrow> ([], r))
      in if whole = [] \<and> frac = [] then None
         else (case parse_exponent r' of
                 None \<Rightarrow> None
               | Some e \<Rightarrow> Some (of_nat (read_nat (whole @ frac)) * 10 powi (e - int (length frac)))))"

definition to_lower :: "char \<Rightarrow> char" where
  "to_lower c = (let n = of_char c :: nat in if 65 \<le> n \<and> n \<le> 90 then char_of (n + 32) else c)"

definition parse_f32 :: "string \<Rightarrow> f32 option" where
  "parse_f32 s =
     (let neg = (s \<noteq> [] \<and> hd s = CHR ''-'');
          body = (if s \<noteq> [] \<and> (hd s = CHR ''-'' \<or> hd s = CHR ''+'') then tl s else s);
          low = map to_lower body
      in if low = ''nan'' then Some NaN
         else if low = ''inf'' \<or> low = ''infinity'' then Some (if neg then NInf else PInf)
         else map_option (\<lambda>q. fp_of_rat binary32 (if neg then - q else q)) (parse_decimal body))"

text \<open>Division by a positive literal.\<close>

definition fp_div_lit :: "float_format \<Rightarrow> fp \<Rightarrow> rat \<Rightarrow> fp" where
  "fp_div_lit F x d = (case x of Fin q \<Rightarrow> fp_of_rat F (q / d) | _ \<Rightarrow> x)"

text \<open>\<^verbatim>\<open>{:.n}\<close>: the exact value with \<open>n\<close> decimals, ties to even.\<close>

definition show_fixed :: "nat \<Rightarrow> fp \<Rightarrow> string" where
  "show_fixed n x = (case x of
     Fin q \<Rightarrow> (let m = nat (rne (\<bar>q\<bar> * 10 ^ n)); s = show_nat m;
                  padded = replicate (Suc n - length s) (CHR ''0'') @ s;
                  k = length padded - n
              in (if q < 0 then ''-'' else '''') @ take k padded
                 @ (if n = 0 then '''' else ''.'' @ drop k padded))
   | PInf \<Rightarrow> ''inf'' | NInf \<Rightarrow> ''-inf'' | NaN \<Rightarrow> ''NaN'')"

text \<open>What is printed has the digits of the rounded value, \<open>n\<close> of them behind the point.\<close>

lemma show_fixed_shape:
  assumes "0 \<le> q"
  obtains ds es where "show_fixed n (Fin q) = ds @ (if n = 0 then '''' else ''.'' @ es)"
    "list_all is_digit ds" "ds \<noteq> []" "list_all is_digit es" "length es = n"
    "of_nat (read_nat (ds @ es)) = (of_int (rne (q * 10 ^ n)) :: rat)"
proof -
  define m s where "m = nat (rne (q * 10 ^ n))" and "s = show_nat m"
  define padded where "padded = replicate (Suc n - length s) (CHR ''0'') @ s"
  define k where "k = length padded - n"
  have "0 \<le> rne (q * 10 ^ n)" using rne_mono[of 0 "q * 10 ^ n"] rne_of_int[of 0] assms by simp
  then have m: "of_nat m = (of_int (rne (q * 10 ^ n)) :: rat)" by (simp add: m_def)
  have digits: "list_all is_digit padded"
    by (auto simp: padded_def s_def show_nat_digits is_digit_def list_all_iff[of _ "replicate _ _"])
  have read: "read_nat padded = m" by (simp add: padded_def read_nat_zeros s_def)
  have len: "Suc n \<le> length padded" by (simp add: padded_def)
  have sf: "show_fixed n (Fin q) = take k padded @ (if n = 0 then '''' else ''.'' @ drop k padded)"
    using assms by (simp add: show_fixed_def Let_def m_def s_def padded_def k_def)
  have d: "list_all is_digit (take k padded)" "list_all is_digit (drop k padded)"
    using digits by (auto simp: list_all_iff dest: in_set_takeD in_set_dropD)
  have "take k padded \<noteq> []" using len by (auto simp: k_def)
  then show thesis
    using that[OF sf d(1) _ d(2)] len read m by (simp add: k_def)
qed

text \<open>Digits parse to their number; what is printed reads back as the value rounded to its decimals.\<close>

lemma show_fixed_reads:
  assumes "0 \<le> q"
  shows "parse_decimal (show_fixed n (Fin q)) = Some (of_int (rne (q * 10 ^ n)) / 10 ^ n)"
proof -
  obtain ds es where sf: "show_fixed n (Fin q) = ds @ (if n = 0 then '''' else ''.'' @ es)"
    and d: "list_all is_digit ds" "ds \<noteq> []" "list_all is_digit es" "length es = n"
    and m: "of_nat (read_nat (ds @ es)) = (of_int (rne (q * 10 ^ n)) :: rat)"
    by (rule show_fixed_shape[OF assms])
  show ?thesis
  proof (cases "n = 0")
    case True
    then have "show_fixed n (Fin q) = ds" "es = []" using sf d(4) by simp_all
    moreover have tw: "takeWhile is_digit ds = ds" "dropWhile is_digit ds = []"
      using d by (auto simp: list_all_iff)
    ultimately show ?thesis using True m d(2) by (simp add: parse_decimal_def parse_exponent_def Let_def tw)
  next
    case False
    have nd: "\<not> is_digit (CHR ''.'')" by (simp add: is_digit_def)
    have "show_fixed n (Fin q) = ds @ CHR ''.'' # es" using False by (simp add: sf)
    moreover have tw: "takeWhile is_digit (ds @ CHR ''.'' # es) = ds"
        "dropWhile is_digit (ds @ CHR ''.'' # es) = CHR ''.'' # es"
        "takeWhile is_digit es = es" "dropWhile is_digit es = []"
      using d nd by (auto simp: list_all_iff takeWhile_append dropWhile_append)
    ultimately show ?thesis
      using m d(2,4) by (simp add: parse_decimal_def parse_exponent_def Let_def power_int_minus divide_inverse tw)
  qed
qed

lemma show_fixed_near:
  assumes "0 \<le> r"
  shows "\<exists>w. parse_decimal (show_fixed n (Fin r)) = Some w \<and> \<bar>w - r\<bar> \<le> 1 / (2 * 10 ^ n)"
proof -
  define w where "w = (of_int (rne (r * 10 ^ n)) / 10 ^ n :: rat)"
  have wr: "(w - r) * 10 ^ n = of_int (rne (r * 10 ^ n)) - r * 10 ^ n" by (simp add: w_def left_diff_distrib)
  have "\<bar>w - r\<bar> * 10 ^ n = \<bar>(w - r) * 10 ^ n\<bar>" by (simp add: abs_mult)
  also have "\<dots> \<le> 1 / 2" unfolding wr by (rule rne_error)
  finally have "\<bar>w - r\<bar> \<le> 1 / (2 * 10 ^ n)" by (simp add: field_simps)
  then show ?thesis using show_fixed_reads[OF assms, of n] unfolding w_def by blast
qed

lemma parse_f32_digits:
  assumes "list_all is_digit s" and "s \<noteq> []"
  shows "parse_f32 s = Some (fp_of_rat binary32 (of_nat (read_nat s)))"
proof -
  have tw: "takeWhile is_digit s = s" "dropWhile is_digit s = []" using assms(1) by (auto simp: list_all_iff)
  have dec: "parse_decimal s = Some (of_nat (read_nat s))"
    using assms(2) by (simp add: parse_decimal_def parse_exponent_def Let_def tw)
  obtain c r where s: "s = c # r" using assms(2) by (cases s) auto
  have "is_digit c" using assms(1) s by simp
  then have c: "to_lower c = c" "c \<noteq> CHR ''-''" "c \<noteq> CHR ''+''" "c \<noteq> CHR ''n''" "c \<noteq> CHR ''i''"
    by (auto simp: is_digit_def to_lower_def Let_def)
  then have "map to_lower s \<noteq> ''nan''" "map to_lower s \<noteq> ''inf''" "map to_lower s \<noteq> ''infinity''"
    by (simp_all add: s)
  then show ?thesis using c dec by (simp add: parse_f32_def Let_def s)
qed

end
