(* ===== verification/Hardware.thy ===== *)
theory Hardware
  imports FloatText
begin

text \<open>
  Hardware detection (\<^verbatim>\<open>crates/edge-agent/src/hardware.rs\<close>): the accelerators found through sysfs, procfs
  and device nodes, their sensors and how both print. The host is a parameter: what its
  directories list, what its files contain and what \<^verbatim>\<open>nvidia-smi\<close> prints. Paths and file names are
  byte strings.
\<close>

section \<open>Accelerators\<close>

datatype accelerator_kind = Gpu | Npu

datatype vendor = Nvidia | Amd | Intel | Qualcomm | Rockchip | Hailo | Habana | Other string

fun show_vendor :: "vendor \<Rightarrow> string" where
  "show_vendor Nvidia = ''NVIDIA''"
| "show_vendor Amd = ''AMD''"
| "show_vendor Intel = ''Intel''"
| "show_vendor Qualcomm = ''Qualcomm''"
| "show_vendor Rockchip = ''Rockchip''"
| "show_vendor Hailo = ''Hailo''"
| "show_vendor Habana = ''Habana''"
| "show_vendor (Other s) = s"

record accelerator =
  kind :: accelerator_kind
  acc_vendor :: vendor
  acc_name :: string
  device_path :: string
  driver :: "string option"
  sysfs_device :: "string option"

record sensor_reading =
  temp_c :: "f32 option"
  power_w :: "f32 option"
  utilization_pct :: "f32 option"

definition no_reading :: sensor_reading where
  "no_reading = \<lparr>temp_c = None, power_w = None, utilization_pct = None\<rparr>"

definition join_with :: "string \<Rightarrow> string list \<Rightarrow> string" where
  "join_with sep xs = (case xs of [] \<Rightarrow> '''' | y # ys \<Rightarrow> y @ concat (map (\<lambda>z. sep @ z) ys))"

definition option_list :: "'a option \<Rightarrow> 'a list" where
  "option_list x = (case x of None \<Rightarrow> [] | Some y \<Rightarrow> [y])"

definition show_sensors :: "sensor_reading \<Rightarrow> string" where
  "show_sensors r =
     (let parts = map (\<lambda>t. show_fixed 0 t @ string_of_bytes [0xC2, 0xB0] @ ''C'') (option_list (temp_c r))
            @ map (\<lambda>p. show_fixed 1 p @ ''W'') (option_list (power_w r))
            @ map (\<lambda>u. show_fixed 0 u @ ''% util'') (option_list (utilization_pct r))
      in if parts = [] then ''no sensors'' else join_with '', '' parts)"

definition show_accelerator :: "accelerator \<Rightarrow> string" where
  "show_accelerator a = ''['' @ (case kind a of Gpu \<Rightarrow> ''GPU'' | Npu \<Rightarrow> ''NPU'') @ ''] ''
     @ show_vendor (acc_vendor a) @ '' '' @ acc_name a
     @ (case driver a of None \<Rightarrow> '''' | Some d \<Rightarrow> '' (driver: '' @ d @ '')'')"

definition supports_llama_offload :: "accelerator \<Rightarrow> bool" where
  "supports_llama_offload a \<longleftrightarrow> kind a = Gpu \<and> (case acc_vendor a of Nvidia \<Rightarrow> True | Amd \<Rightarrow> True
     | Intel \<Rightarrow> True | _ \<Rightarrow> False)"

section \<open>The host\<close>

text \<open>An unreadable directory entry is \<open>None\<close> in the listing.\<close>

record host =
  read_dir :: "string \<Rightarrow> string option list option"
  read_to_string :: "string \<Rightarrow> string option"
  nvidia_smi :: "bytes option"

definition join_path :: "string \<Rightarrow> string \<Rightarrow> string" where
  "join_path p q = p @ ''/'' @ q"

text \<open>\<^verbatim>\<open>entries.flatten()\<close>, the names it yields.\<close>

definition entry_names :: "string option list \<Rightarrow> string list" where
  "entry_names es = concat (map option_list es)"

definition lossy :: "string \<Rightarrow> string" where
  "lossy s = from_utf8_lossy (as_bytes s)"

definition sysfs_read :: "host \<Rightarrow> string \<Rightarrow> string option" where
  "sysfs_read h p = map_option trim (read_to_string h p)"

fun find_map :: "('a \<Rightarrow> 'b option) \<Rightarrow> 'a list \<Rightarrow> 'b option" where
  "find_map f [] = None"
| "find_map f (x # xs) = (case f x of None \<Rightarrow> find_map f xs | Some y \<Rightarrow> Some y)"

definition uevent_value :: "host \<Rightarrow> string \<Rightarrow> string \<Rightarrow> string option" where
  "uevent_value h p key =
     (case read_to_string h p of
        None \<Rightarrow> None
      | Some content \<Rightarrow> find_map (strip_prefix (key @ ''='')) (str_lines content))"

section \<open>Sensors\<close>

definition and_parse :: "string option \<Rightarrow> f32 option" where
  "and_parse v = (case v of None \<Rightarrow> None | Some s \<Rightarrow> parse_f32 s)"

definition hwmon_temp :: "host \<Rightarrow> string \<Rightarrow> f32 option" where
  "hwmon_temp h hwmon = map_option (\<lambda>x. fp_div_lit binary32 x 1000)
     (and_parse (sysfs_read h (join_path hwmon ''temp1_input'')))"

definition hwmon_power :: "host \<Rightarrow> string \<Rightarrow> f32 option" where
  "hwmon_power h hwmon = map_option (\<lambda>x. fp_div_lit binary32 x 1000000)
     (and_parse (find_map (\<lambda>f. sysfs_read h (join_path hwmon f)) [''power1_average'', ''power1_input'']))"

text \<open>One hwmon directory fills in what is still missing.\<close>

definition read_hwmon_entry :: "host \<Rightarrow> string \<Rightarrow> sensor_reading \<Rightarrow> sensor_reading" where
  "read_hwmon_entry h hwmon r =
     (let r1 = (if temp_c r = None then r\<lparr>temp_c := hwmon_temp h hwmon\<rparr> else r)
      in if power_w r1 = None then r1\<lparr>power_w := hwmon_power h hwmon\<rparr> else r1)"

definition read_hwmon_sensors :: "host \<Rightarrow> string \<Rightarrow> sensor_reading" where
  "read_hwmon_sensors h sysfs =
     (case read_dir h (join_path sysfs ''hwmon'') of
        None \<Rightarrow> no_reading
      | Some es \<Rightarrow>
          (fold (\<lambda>e. read_hwmon_entry h (join_path (join_path sysfs ''hwmon'') e)) (entry_names es) no_reading)
            \<lparr>utilization_pct := and_parse (sysfs_read h (join_path sysfs ''gpu_busy_percent''))\<rparr>)"

definition nth_field :: "f32 option list \<Rightarrow> nat \<Rightarrow> f32 option" where
  "nth_field fs i = (if i < length fs then fs ! i else None)"

definition read_nvidia_smi_sensors :: "host \<Rightarrow> sensor_reading" where
  "read_nvidia_smi_sensors h =
     (case nvidia_smi h of
        None \<Rightarrow> no_reading
      | Some stdout \<Rightarrow>
          (case str_lines (from_utf8_lossy stdout) of
             [] \<Rightarrow> no_reading
           | line # _ \<Rightarrow>
               (let fields = map (\<lambda>f. parse_f32 (trim f)) (split_on (CHR '','') line)
                in \<lparr>temp_c = nth_field fields 0, power_w = nth_field fields 1,
                    utilization_pct = nth_field fields 2\<rparr>)))"

definition read_sensors :: "host \<Rightarrow> accelerator \<Rightarrow> sensor_reading" where
  "read_sensors h a =
     (let hw = (case sysfs_device a of
                  None \<Rightarrow> None
                | Some sysfs \<Rightarrow>
                    (let reading = read_hwmon_sensors h sysfs
                     in if temp_c reading \<noteq> None \<or> power_w reading \<noteq> None then Some reading else None))
      in case hw of
           Some reading \<Rightarrow> reading
         | None \<Rightarrow> if acc_vendor a = Nvidia then read_nvidia_smi_sensors h else no_reading)"

section \<open>Detection\<close>

definition vendor_from_pci_id :: "string \<Rightarrow> vendor" where
  "vendor_from_pci_id i =
     (if i = ''0x10de'' then Nvidia
      else if i = ''0x1002'' \<or> i = ''0x1022'' then Amd
      else if i = ''0x8086'' then Intel
      else if i = ''0x17cb'' then Qualcomm
      else Other i)"

text \<open>The \<^verbatim>\<open>?\<close> on a file that cannot be read ends the search.\<close>

fun first_model :: "host \<Rightarrow> string \<Rightarrow> string list \<Rightarrow> string option" where
  "first_model h dir [] = None"
| "first_model h dir (e # es) =
     (case read_to_string h (join_path (join_path dir e) ''information'') of
        None \<Rightarrow> None
      | Some info \<Rightarrow>
          (case find_map (strip_prefix ''Model:'') (str_lines info) of
             Some m \<Rightarrow> Some (trim m)
           | None \<Rightarrow> first_model h dir es))"

definition nvidia_model_name :: "host \<Rightarrow> string option" where
  "nvidia_model_name h =
     (case read_dir h ''/proc/driver/nvidia/gpus'' of
        None \<Rightarrow> None
      | Some es \<Rightarrow> first_model h ''/proc/driver/nvidia/gpus'' (entry_names es))"

definition starts_with :: "string \<Rightarrow> string \<Rightarrow> bool" where
  "starts_with p s \<longleftrightarrow> take (length p) s = p"

definition drm_gpu :: "host \<Rightarrow> string \<Rightarrow> accelerator option" where
  "drm_gpu h file_name =
     (let nm = lossy file_name in
      if \<not> starts_with ''card'' nm \<or> CHR ''-'' \<in> set nm then None
      else let device_dir = join_path (join_path ''/sys/class/drm'' file_name) ''device'' in
        (case sysfs_read h (join_path device_dir ''vendor'') of
           None \<Rightarrow> None
         | Some vendor_id \<Rightarrow>
             (let v = vendor_from_pci_id vendor_id;
                  device_id = (case sysfs_read h (join_path device_dir ''device'') of None \<Rightarrow> '''' | Some d \<Rightarrow> d);
                  drv = uevent_value h (join_path device_dir ''uevent'') ''DRIVER'';
                  pretty = (if v = Nvidia
                            then (case nvidia_model_name h of None \<Rightarrow> ''GPU '' @ device_id | Some m \<Rightarrow> m)
                            else ''GPU '' @ device_id)
              in Some \<lparr>kind = Gpu, acc_vendor = v, acc_name = pretty, device_path = ''/dev/dri/'' @ nm,
                       driver = drv, sysfs_device = Some (lossy device_dir)\<rparr>)))"

definition detect_drm_gpus :: "host \<Rightarrow> accelerator list" where
  "detect_drm_gpus h =
     (case read_dir h ''/sys/class/drm'' of
        None \<Rightarrow> []
      | Some es \<Rightarrow> concat (map (\<lambda>e. option_list (drm_gpu h e)) (entry_names es)))"

definition npu_of_driver :: "host \<Rightarrow> string \<Rightarrow> string option \<Rightarrow> vendor \<times> string" where
  "npu_of_driver h device_dir drv =
     (case drv of
        Some d \<Rightarrow>
          if d = ''amdxdna'' then (Amd, ''XDNA NPU (Ryzen AI)'')
          else if d = ''intel_vpu'' then (Intel, ''NPU (VPU)'')
          else if d = ''qaic'' then (Qualcomm, ''Cloud AI accelerator'')
          else if d = ''habanalabs'' then (Habana, ''Gaudi accelerator'')
          else (Other d, ''accelerator ('' @ d @ '')'')
      | None \<Rightarrow>
          ((case sysfs_read h (join_path device_dir ''vendor'') of
              None \<Rightarrow> Other ''unknown''
            | Some v \<Rightarrow> vendor_from_pci_id v), ''accelerator (unbound)''))"

definition accel_npu :: "host \<Rightarrow> string \<Rightarrow> accelerator option" where
  "accel_npu h file_name =
     (let nm = lossy file_name in
      if \<not> starts_with ''accel'' nm \<or> CHR ''-'' \<in> set nm then None
      else let device_dir = join_path (join_path ''/sys/class/accel'' file_name) ''device'';
               drv = uevent_value h (join_path device_dir ''uevent'') ''DRIVER'';
               (v, pretty) = npu_of_driver h device_dir drv
           in Some \<lparr>kind = Npu, acc_vendor = v, acc_name = pretty, device_path = ''/dev/accel/'' @ nm,
                    driver = drv, sysfs_device = Some (lossy device_dir)\<rparr>)"

definition detect_accel_npus :: "host \<Rightarrow> accelerator list" where
  "detect_accel_npus h =
     (case read_dir h ''/sys/class/accel'' of
        None \<Rightarrow> []
      | Some es \<Rightarrow> concat (map (\<lambda>e. option_list (accel_npu h e)) (entry_names es)))"

definition misc_npus :: "host \<Rightarrow> string \<Rightarrow> string \<Rightarrow> vendor \<Rightarrow> string \<Rightarrow> accelerator list" where
  "misc_npus h glob_dir prefix v nm =
     (case read_dir h glob_dir of
        None \<Rightarrow> []
      | Some es \<Rightarrow>
          map (\<lambda>e. \<lparr>kind = Npu, acc_vendor = v, acc_name = nm, device_path = glob_dir @ ''/'' @ lossy e,
                    driver = None, sysfs_device = None\<rparr>)
            (filter (\<lambda>e. starts_with prefix (lossy e)) (entry_names es)))"

definition detect_misc_npus :: "host \<Rightarrow> accelerator list" where
  "detect_misc_npus h =
     misc_npus h ''/dev'' ''rknpu'' Rockchip ''RKNPU'' @ misc_npus h ''/dev'' ''hailo'' Hailo ''Hailo NPU''"

definition detect_accelerators :: "host \<Rightarrow> accelerator list" where
  "detect_accelerators h = detect_drm_gpus h @ detect_accel_npus h @ detect_misc_npus h"

section \<open>Properties\<close>

lemma option_list_iff [simp]: "x \<in> set (option_list y) \<longleftrightarrow> y = Some x"
  by (cases y) (auto simp: option_list_def)

lemma entry_names_iff [simp]: "e \<in> set (entry_names es) \<longleftrightarrow> Some e \<in> set es"
  by (auto simp: entry_names_def)

lemma detected_gpu:
  "a \<in> set (detect_drm_gpus h) \<longleftrightarrow>
     (\<exists>es e. read_dir h ''/sys/class/drm'' = Some es \<and> Some e \<in> set es \<and> drm_gpu h e = Some a)"
  by (cases "read_dir h ''/sys/class/drm''") (auto simp: detect_drm_gpus_def Bex_def)

lemma detected_npu_kind:
  "a \<in> set (detect_accel_npus h @ detect_misc_npus h) \<Longrightarrow> kind a = Npu"
proof -
  have "accel_npu h e = Some x \<Longrightarrow> kind x = Npu" for e x
    by (auto simp: accel_npu_def Let_def split: if_splits prod.splits)
  then show "a \<in> set (detect_accel_npus h @ detect_misc_npus h) \<Longrightarrow> kind a = Npu"
    by (cases "read_dir h ''/sys/class/accel''"; cases "read_dir h ''/dev''")
      (auto simp: detect_accel_npus_def detect_misc_npus_def misc_npus_def)
qed

lemma drm_gpu_kind: "drm_gpu h e = Some a \<Longrightarrow> kind a = Gpu"
  by (auto simp: drm_gpu_def Let_def split: option.splits if_splits)

lemma drm_gpu_offload:
  "(\<exists>a. drm_gpu h e = Some a \<and> supports_llama_offload a) \<longleftrightarrow>
     starts_with ''card'' (lossy e) \<and> CHR ''-'' \<notin> set (lossy e)
     \<and> (\<exists>v. read_to_string h (''/sys/class/drm/'' @ e @ ''/device/vendor'') = Some v
          \<and> trim v \<in> {''0x10de'', ''0x1002'', ''0x1022'', ''0x8086''})"
  by (auto simp: drm_gpu_def Let_def supports_llama_offload_def vendor_from_pci_id_def join_path_def
      sysfs_read_def split: option.splits if_splits)

text \<open>C28: The host counts as having an accelerator that llama.cpp can offload to (the condition for passing
  on the requested number of GPU layers, 0 unless given) exactly when some bare \<open>cardN\<close> entry of the
  DRM directory has the PCI vendor id of NVIDIA, AMD or Intel: connectors, unreadable entries and
  NPUs, of the same vendors too, do not count.\<close>

theorem offload_iff_drm_vendor:
  "list_ex supports_llama_offload (detect_accelerators h) \<longleftrightarrow>
     (\<exists>es e v. read_dir h ''/sys/class/drm'' = Some es \<and> Some e \<in> set es
        \<and> starts_with ''card'' (lossy e) \<and> CHR ''-'' \<notin> set (lossy e)
        \<and> read_to_string h (''/sys/class/drm/'' @ e @ ''/device/vendor'') = Some v
        \<and> trim v \<in> {''0x10de'', ''0x1002'', ''0x1022'', ''0x8086''})"
proof -
  have "list_ex supports_llama_offload (detect_accelerators h) \<longleftrightarrow>
      (\<exists>a \<in> set (detect_drm_gpus h). supports_llama_offload a)"
    using detected_npu_kind[of _ h]
    by (fastforce simp: list_ex_iff detect_accelerators_def supports_llama_offload_def)
  also have "\<dots> \<longleftrightarrow> (\<exists>es e. read_dir h ''/sys/class/drm'' = Some es \<and> Some e \<in> set es
      \<and> (\<exists>a. drm_gpu h e = Some a \<and> supports_llama_offload a))"
    unfolding Bex_def detected_gpu by blast
  finally show ?thesis unfolding drm_gpu_offload by blast
qed

lemma read_hwmon_smi [simp]: "read_hwmon_sensors (h\<lparr>nvidia_smi := o'\<rparr>) p = read_hwmon_sensors h p"
proof -
  have sys: "sysfs_read (h\<lparr>nvidia_smi := o'\<rparr>) = sysfs_read h" by (simp add: sysfs_read_def fun_eq_iff)
  then have "read_hwmon_entry (h\<lparr>nvidia_smi := o'\<rparr>) = read_hwmon_entry h"
    by (intro ext) (simp only: read_hwmon_entry_def hwmon_temp_def hwmon_power_def)
  then show ?thesis unfolding read_hwmon_sensors_def sys by (simp split: option.splits)
qed

lemma temp_c_fold:
  "temp_c (fold (\<lambda>e. read_hwmon_entry h (join_path d e)) es r) =
     (case temp_c r of Some t \<Rightarrow> Some t
      | None \<Rightarrow> find_map (\<lambda>e. hwmon_temp h (join_path d e)) es)"
  by (induction es arbitrary: r)
    (auto simp: read_hwmon_entry_def Let_def split: option.splits)

lemma power_w_fold:
  "power_w (fold (\<lambda>e. read_hwmon_entry h (join_path d e)) es r) =
     (case power_w r of Some t \<Rightarrow> Some t
      | None \<Rightarrow> find_map (\<lambda>e. hwmon_power h (join_path d e)) es)"
  by (induction es arbitrary: r)
    (auto simp: read_hwmon_entry_def Let_def split: option.splits)

text \<open>C29: The sensor loop, which carries a partial reading from one hwmon directory to the next, gives for
  temperature and for power, each on its own, what the first directory with a number there says:
  the temperature in millidegrees divided by 1000, the power in microwatts divided by a million. A
  \<open>power1_average\<close> that is no number hides the \<open>power1_input\<close> beside it.\<close>

theorem hwmon_first_reading:
  "read_hwmon_sensors h sysfs =
     (case read_dir h (join_path sysfs ''hwmon'') of
        None \<Rightarrow> no_reading
      | Some es \<Rightarrow>
          (let file = (\<lambda>e. join_path (join_path (join_path sysfs ''hwmon'') e))
           in \<lparr>temp_c = find_map (\<lambda>e. map_option (\<lambda>x. fp_div_lit binary32 x 1000)
                 (and_parse (sysfs_read h (file e ''temp1_input'')))) (entry_names es),
               power_w = find_map (\<lambda>e. map_option (\<lambda>x. fp_div_lit binary32 x 1000000)
                 (case sysfs_read h (file e ''power1_average'') of
                    Some v \<Rightarrow> parse_f32 v
                  | None \<Rightarrow> and_parse (sysfs_read h (file e ''power1_input'')))) (entry_names es),
               utilization_pct = and_parse (sysfs_read h (join_path sysfs ''gpu_busy_percent''))\<rparr>))"
proof (cases "read_dir h (join_path sysfs ''hwmon'')")
  case (Some es)
  have "hwmon_power h p = map_option (\<lambda>x. fp_div_lit binary32 x 1000000)
      (case sysfs_read h (join_path p ''power1_average'') of Some v \<Rightarrow> parse_f32 v
       | None \<Rightarrow> and_parse (sysfs_read h (join_path p ''power1_input'')))" for p
    by (simp add: hwmon_power_def and_parse_def split: option.splits)
  then show ?thesis
    using Some temp_c_fold[of h "join_path sysfs ''hwmon''" "entry_names es" no_reading]
      power_w_fold[of h "join_path sysfs ''hwmon''" "entry_names es" no_reading]
    by (simp add: read_hwmon_sensors_def no_reading_def hwmon_temp_def Let_def)
qed (simp add: read_hwmon_sensors_def)

text \<open>\<open>nvidia-smi\<close> is a fallback: the reading of an accelerator does not depend on what it prints,
  unless the accelerator is NVIDIA's and its hwmon directories give neither temperature nor
  power.\<close>

lemma smi_only_fallback:
  assumes "acc_vendor a \<noteq> Nvidia \<or> (\<exists>p. sysfs_device a = Some p
      \<and> (temp_c (read_hwmon_sensors h p) \<noteq> None \<or> power_w (read_hwmon_sensors h p) \<noteq> None))"
  shows "read_sensors (h\<lparr>nvidia_smi := o'\<rparr>) a = read_sensors h a"
  using assms by (auto simp: read_sensors_def Let_def split: option.splits)

text \<open>A number in a sensor file, divided by its unit: two roundings of single precision.\<close>

lemma sensor_value:
  assumes "n \<le> 2 ^ 64" and "1 \<le> d" "d \<le> 10 ^ 6"
  obtains x where "map_option (\<lambda>x. fp_div_lit binary32 x d) (parse_f32 (trim (show_nat n @ [CHR 0x0A]))) = Some (Fin x)"
    "0 \<le> x" "\<bar>x - of_nat n / d\<bar> \<le> of_nat n / d * (1 / 2 ^ 22)"
proof -
  have "(of_nat n :: rat) \<le> of_nat (2 ^ 64)" using assms(1) by (simp only: of_nat_le_iff)
  then have n: "(of_nat n :: rat) \<le> 2 ^ 64" "(of_nat n :: rat) = 0 \<or> 1 \<le> (of_nat n :: rat)" by (simp_all, linarith)
  define y where "y = fround binary32 (of_nat n)"
  have y: "fp_of_rat binary32 (of_nat n) = Fin y" "0 \<le> y"
    unfolding y_def using fp32_small[of "of_nat n"] n by auto
  have yn: "\<bar>y - of_nat n\<bar> \<le> of_nat n * (1 / 2 ^ 24)"
    unfolding y_def using fround32_error[of "of_nat n"] n by auto
  then have y2: "of_nat n / 2 \<le> y" "y \<le> 2 * of_nat n" unfolding abs_le_iff by simp_all
  have "y / d \<le> y / 1" using assms(2) y(2) by (intro divide_left_mono) auto
  moreover have "y / 10 ^ 6 \<le> y / d" using assms(2,3) y(2) by (intro divide_left_mono) auto
  ultimately have yd: "y / d \<le> y" "y / 10 ^ 6 \<le> y / d" "0 \<le> y / d" using assms(2) y(2) by simp_all
  have "y / d = 0 \<or> 1 / 10 ^ 13 \<le> y / d"
  proof (cases "n = 0")
    case False
    then have "1 / 2 \<le> y" using n(2) y2(1) by simp
    then have "1 / 10 ^ 13 \<le> y / 10 ^ 6" by simp
    then show ?thesis using yd(2) by (intro disjI2) (rule order_trans)
  qed (use y2 y(2) in simp)
  then have x: "\<bar>fround binary32 (y / d) - y / d\<bar> \<le> y / d * (1 / 2 ^ 24)"
    using fround32_error[of "y / d"] by auto
  have "\<bar>y / d - of_nat n / d\<bar> = \<bar>y - of_nat n\<bar> / d"
    using assms(2) by (simp add: abs_divide flip: diff_divide_distrib)
  also have "\<dots> \<le> of_nat n * (1 / 2 ^ 24) / d" using yn assms(2) by (intro divide_right_mono) auto
  finally have "\<bar>y / d - of_nat n / d\<bar> \<le> of_nat n / d * (1 / 2 ^ 24)" by simp
  then have "\<bar>fround binary32 (y / d) - of_nat n / d\<bar> \<le> of_nat n / d * (1 / 2 ^ 22)"
    by (rule rel_trans[OF _ x]) (use assms(2) in simp_all)
  moreover have "fp_of_rat binary32 (y / d) = Fin (fround binary32 (y / d))" "0 \<le> fround binary32 (y / d)"
    using fp32_small[of "y / d"] yd n(1) y2 by auto
  ultimately show thesis
    using y(1) by (intro that[of "fround binary32 (y / d)"])
      (simp_all add: trim_number show_nat_digits parse_f32_digits fp_div_lit_def)
qed

text \<open>C35: From the sensor files to the screen: when the first hwmon directory of a device gives its
  temperature in millidegrees and its power in microwatts, each a natural number up to \<open>2 ^ 64\<close> in
  decimal and a newline, the line printed for the device starts with a whole number of degrees,
  digits only, and a number of watts with exactly one digit behind the point, and each reads back to
  the measured value up to half a unit of its last digit and a relative error of \<open>1 / 2 ^ 22\<close> from the
  single-precision arithmetic.\<close>

theorem sensor_line_accurate:
  assumes "sysfs_device a = Some p" and "read_dir h (p @ ''/hwmon'') = Some (Some e # es)"
    and "read_to_string h (p @ ''/hwmon/'' @ e @ ''/temp1_input'') = Some (show_nat mc @ [CHR 0x0A])"
    and "read_to_string h (p @ ''/hwmon/'' @ e @ ''/power1_average'') = Some (show_nat mw @ [CHR 0x0A])"
    and "mc \<le> 2 ^ 64" and "mw \<le> 2 ^ 64"
  shows "\<exists>t w i d rest tv wv. show_sensors (read_sensors h a)
      = t @ string_of_bytes [0xC2, 0xB0] @ ''C, '' @ w @ ''W'' @ rest
    \<and> list_all is_digit t \<and> t \<noteq> [] \<and> w = i @ [CHR ''.'', d] \<and> list_all is_digit i \<and> i \<noteq> [] \<and> is_digit d
    \<and> parse_decimal t = Some tv \<and> \<bar>tv - of_nat mc / 1000\<bar> \<le> 1 / 2 + of_nat mc / 1000 / 2 ^ 22
    \<and> parse_decimal w = Some wv \<and> \<bar>wv - of_nat mw / 10 ^ 6\<bar> \<le> 1 / 20 + of_nat mw / 10 ^ 6 / 2 ^ 22"
proof -
  obtain x where x: "map_option (\<lambda>x. fp_div_lit binary32 x 1000) (parse_f32 (trim (show_nat mc @ [CHR 0x0A]))) = Some (Fin x)"
      "0 \<le> x" "\<bar>x - of_nat mc / 1000\<bar> \<le> of_nat mc / 1000 * (1 / 2 ^ 22)"
    by (rule sensor_value[OF assms(5), of 1000]) simp_all
  obtain z where z: "map_option (\<lambda>x. fp_div_lit binary32 x 1000000) (parse_f32 (trim (show_nat mw @ [CHR 0x0A]))) = Some (Fin z)"
      "0 \<le> z" "\<bar>z - of_nat mw / 10 ^ 6\<bar> \<le> of_nat mw / 10 ^ 6 * (1 / 2 ^ 22)"
    by (rule sensor_value[OF assms(6), of 1000000]) simp_all
  let ?d = "join_path (join_path (p @ ''/hwmon'') e)"
  have "hwmon_temp h (join_path (p @ ''/hwmon'') e) = Some (Fin x)" "hwmon_power h (join_path (p @ ''/hwmon'') e) = Some (Fin z)"
    using assms(3,4) x(1) z(1) by (simp_all add: hwmon_temp_def hwmon_power_def and_parse_def sysfs_read_def join_path_def)
  then have r: "temp_c (read_sensors h a) = Some (Fin x)" "power_w (read_sensors h a) = Some (Fin z)"
    using assms(1,2) temp_c_fold[of h "p @ ''/hwmon''" "entry_names (Some e # es)" no_reading]
      power_w_fold[of h "p @ ''/hwmon''" "entry_names (Some e # es)" no_reading]
    by (simp_all add: read_sensors_def read_hwmon_sensors_def join_path_def no_reading_def entry_names_def option_list_def)
  obtain tv where tv: "parse_decimal (show_fixed 0 (Fin x)) = Some tv" "\<bar>tv - x\<bar> \<le> 1 / 2"
    using show_fixed_near[OF x(2), of 0] by auto
  obtain wv where wv: "parse_decimal (show_fixed 1 (Fin z)) = Some wv" "\<bar>wv - z\<bar> \<le> 1 / 20"
    using show_fixed_near[OF z(2), of 1] by auto
  have shape: "list_all is_digit (show_fixed 0 (Fin x)) \<and> show_fixed 0 (Fin x) \<noteq> []"
    by (rule show_fixed_shape[OF x(2), of 0]) simp
  have "\<exists>i d. show_fixed 1 (Fin z) = i @ [CHR ''.'', d] \<and> list_all is_digit i \<and> i \<noteq> [] \<and> is_digit d"
    by (rule show_fixed_shape[OF z(2), of 1]) (auto simp: length_Suc_conv)
  then obtain i d where one: "show_fixed 1 (Fin z) = i @ [CHR ''.'', d]" "list_all is_digit i" "i \<noteq> []" "is_digit d"
    by blast
  have "show_sensors (read_sensors h a) = show_fixed 0 (Fin x) @ string_of_bytes [0xC2, 0xB0] @ ''C, ''
      @ show_fixed 1 (Fin z) @ ''W'' @ concat (map (\<lambda>u. '', '' @ show_fixed 0 u @ ''% util'')
        (option_list (utilization_pct (read_sensors h a))))"
    using r by (simp add: show_sensors_def join_with_def option_list_def comp_def split: option.splits)
  moreover have "\<bar>tv - of_nat mc / 1000\<bar> \<le> 1 / 2 + of_nat mc / 1000 / 2 ^ 22"
    using tv(2) x(3) abs_triangle_ineq[of "tv - x" "x - of_nat mc / 1000"] by simp
  moreover have "\<bar>wv - of_nat mw / 10 ^ 6\<bar> \<le> 1 / 20 + of_nat mw / 10 ^ 6 / 2 ^ 22"
    using wv(2) z(3) abs_triangle_ineq[of "wv - z" "z - of_nat mw / 10 ^ 6"] by simp
  ultimately show ?thesis using tv(1) wv(1) shape one by blast
qed

definition toy_card :: accelerator where
  "toy_card = \<lparr>kind = Gpu, acc_vendor = Amd, acc_name = ''GPU 0x73bf'', device_path = ''/dev/dri/card0'',
     driver = Some ''amdgpu'', sysfs_device = Some ''/sys/class/drm/card0/device''\<rparr>"

definition toy_host :: host where
  "toy_host = \<lparr>read_dir = [''/sys/class/drm/card0/device/hwmon'' \<mapsto> [Some ''hwmon3'', None]],
     read_to_string = [''/sys/class/drm/card0/device/hwmon/hwmon3/temp1_input'' \<mapsto> show_nat 48500 @ [CHR 0x0A],
       ''/sys/class/drm/card0/device/hwmon/hwmon3/power1_average'' \<mapsto> show_nat 21730000 @ [CHR 0x0A]],
     nvidia_smi = None\<rparr>"

theorem sensor_line_accurate_witness:
  "\<exists>t w rest tv wv. show_sensors (read_sensors toy_host toy_card)
      = t @ string_of_bytes [0xC2, 0xB0] @ ''C, '' @ w @ ''W'' @ rest
    \<and> parse_decimal t = Some tv \<and> \<bar>tv - 97 / 2\<bar> \<le> 51 / 100 \<and> parse_decimal w = Some wv \<and> \<bar>wv - 2173 / 100\<bar> \<le> 6 / 100"
proof -
  obtain t w rest tv wv where *: "show_sensors (read_sensors toy_host toy_card)
      = t @ string_of_bytes [0xC2, 0xB0] @ ''C, '' @ w @ ''W'' @ rest"
    "parse_decimal t = Some tv" "\<bar>tv - of_nat 48500 / 1000\<bar> \<le> 1 / 2 + of_nat 48500 / 1000 / 2 ^ 22"
    "parse_decimal w = Some wv" "\<bar>wv - of_nat 21730000 / 10 ^ 6\<bar> \<le> 1 / 20 + of_nat 21730000 / 10 ^ 6 / 2 ^ 22"
    using sensor_line_accurate[of toy_card "''/sys/class/drm/card0/device''" toy_host "''hwmon3''" "[None]" 48500 21730000]
    by (fastforce simp: toy_host_def toy_card_def)
  have "\<bar>tv - 97 / 2\<bar> \<le> 51 / 100" "\<bar>wv - 2173 / 100\<bar> \<le> 6 / 100"
    using *(3,5) by (simp_all add: abs_le_iff)
  with * show ?thesis by blast
qed

end
