(* ===== verification/AgentMain.thy ===== *)
theory AgentMain
  imports EdgeAgent Hardware
begin

text \<open>
  The edge agent's binary (\<^verbatim>\<open>crates/edge-agent/src/main.rs\<close>): hardware detection, the optional llama.cpp
  backend, the synthetic network quality of a forced mode, and the demo frames. \<open>feature\<close> tells
  whether the binary was built with llama.cpp, \<open>init\<close> and \<open>load_from_file\<close> are its binding, \<open>clock i\<close> is the \<open>i\<close>th clock
  reading. Logging, to which alone the port goes, and sleeping are left out.
\<close>

record agent_args =
  arg_probe_interval :: u64
  arg_mode :: string
  arg_port :: u16
  arg_model :: "string option"
  arg_gpu_layers :: u32

definition load_llama_backend :: "bool \<Rightarrow> string + unit
    \<Rightarrow> (string \<Rightarrow> u32 \<Rightarrow> string + ('ctx, 'batch, 'tok, 'smp, 'dec) llama_api)
    \<Rightarrow> edge_agent \<Rightarrow> string \<Rightarrow> u32 \<Rightarrow> edge_agent" where
  "load_llama_backend feature init load_from_file a model_path gpu_layers =
     (if feature
      then (case llama_load init load_from_file model_path gpu_layers of
              Inr b \<Rightarrow> set_local_backend a b
            | Inl e \<Rightarrow> a)
      else a)"

definition forced_offline :: "u64 \<Rightarrow> network_quality" where
  "forced_offline now = \<lparr>latency_ms = f64_lit 10000, packet_loss_pct = f64_lit 100, jitter_ms = f64_lit 0,
     bandwidth_mbps = f64_lit 0, measured_at = now\<rparr>"

definition forced_degraded :: "u64 \<Rightarrow> network_quality" where
  "forced_degraded now = \<lparr>latency_ms = f64_lit 300, packet_loss_pct = f64_lit 10, jitter_ms = f64_lit 60,
     bandwidth_mbps = f64_lit 5, measured_at = now\<rparr>"

definition force_mode :: "edge_agent \<Rightarrow> string \<Rightarrow> u64 \<Rightarrow> edge_agent \<times> callback_calls" where
  "force_mode a mode now =
     (if mode = ''offline'' then update_network_quality a (forced_offline now)
      else if mode = ''degraded'' then update_network_quality a (forced_degraded now)
      else (a, []))"

definition telemetry_demo_frame :: "nat \<Rightarrow> telemetry_frame" where
  "telemetry_demo_frame i = \<lparr>frame_id = 0, source_ip = ''192.168.1.1'', dest_ip = None, timestamp_ns = 0,
     payload = as_bytes (''telemetry-data-'' @ show_nat i), metadata = default_metadata\<rparr>"

text \<open>\<^verbatim>\<open>for i in 0..5\<close>, with the results in order.\<close>

fun process_demo :: "(nat \<Rightarrow> u64) \<Rightarrow> edge_agent \<Rightarrow> nat list \<Rightarrow> edge_agent \<times> inference_result list" where
  "process_demo clock a [] = (a, [])"
| "process_demo clock a (i # ixs) =
     (case process_frame a (telemetry_demo_frame i) (clock (Suc i)) of
        (a', r) \<Rightarrow> case process_demo clock a' ixs of (a'', rs) \<Rightarrow> (a'', r # rs))"

definition agent_main :: "host \<Rightarrow> bool \<Rightarrow> string + unit
    \<Rightarrow> (string \<Rightarrow> u32 \<Rightarrow> string + ('ctx, 'batch, 'tok, 'smp, 'dec) llama_api)
    \<Rightarrow> (nat \<Rightarrow> u64) \<Rightarrow> agent_args \<Rightarrow> edge_agent \<times> callback_calls \<times> inference_result list" where
  "agent_main h feature init load_from_file clock args =
     (let accelerators = detect_accelerators h;
          gpu_available = list_ex supports_llama_offload accelerators;
          a1 = agent_new (arg_probe_interval args);
          a2 = (case arg_model args of
                  None \<Rightarrow> a1
                | Some model_path \<Rightarrow>
                    load_llama_backend feature init load_from_file a1 model_path
                      (if gpu_available then arg_gpu_layers args else 0));
          a3 = set_mode_change_callback a2;
          (a4, calls) = force_mode a3 (arg_mode args) (clock 0);
          (a5, results) = process_demo clock a4 [0..<5]
      in (agent_stop a5, calls, results))"

section \<open>The demo run\<close>

lemma process_demo_effect:
  assumes "process_demo clock a ixs = (a', rs)"
  shows "length rs = length ixs \<and> ag_mode a' = ag_mode a \<and> ag_quality a' = ag_quality a
    \<and> frames_processed (ag_stats a') = frames_processed (ag_stats a) + of_nat (length ixs)
    \<and> mode_transitions (ag_stats a') = mode_transitions (ag_stats a)
    \<and> (ag_mode a = Online \<or> ag_mode a = Degraded \<and> \<not> is_offline (ag_quality a) \<longrightarrow>
        list_all (\<lambda>r. ir_source r = Cloud) rs
        \<and> cloud_offloads (ag_stats a') = cloud_offloads (ag_stats a) + of_nat (length ixs)
        \<and> local_inferences (ag_stats a') = local_inferences (ag_stats a))
    \<and> (ag_mode a = Offline \<longrightarrow>
        list_all (\<lambda>r. ir_source r = Local) rs
        \<and> local_inferences (ag_stats a') = local_inferences (ag_stats a) + of_nat (length ixs)
        \<and> cloud_offloads (ag_stats a') = cloud_offloads (ag_stats a))"
  using assms
proof (induction ixs arbitrary: a rs)
  case (Cons i ixs)
  obtain a1 r where 1: "process_frame a (telemetry_demo_frame i) (clock (Suc i)) = (a1, r)" by fastforce
  obtain rs' where 2: "process_demo clock a1 ixs = (a', rs')" "rs = r # rs'"
    using Cons.prems 1 by (auto split: prod.splits)
  show ?case
    using Cons.IH[OF 2(1)] process_frame_effect[OF 1] 2(2) by auto
qed simp

text \<open>C27: The binary's demo run, for every host, model, backend and clock: all five frames are processed.
  With \<open>--mode offline\<close> all go to the local backend and the callback sees one transition; with
  \<open>--mode degraded\<close>, and in any other mode without a transition, all are offloaded. Without a
  capable GPU the requested GPU layers make no difference.\<close>

theorem agent_main_outcome:
  "(case agent_main h feature init load_from_file clock args of (a, calls, rs) \<Rightarrow>
      length rs = 5 \<and> frames_processed (ag_stats a) = 5
      \<and> (if arg_mode args = ''offline''
         then calls = [(Online, Offline)] \<and> list_all (\<lambda>r. ir_source r = Local) rs
           \<and> local_inferences (ag_stats a) = 5 \<and> cloud_offloads (ag_stats a) = 0
         else calls = (if arg_mode args = ''degraded'' then [(Online, Degraded)] else [])
           \<and> list_all (\<lambda>r. ir_source r = Cloud) rs
           \<and> cloud_offloads (ag_stats a) = 5 \<and> local_inferences (ag_stats a) = 0))
   \<and> (list_ex supports_llama_offload (detect_accelerators h)
      \<or> agent_main h feature init load_from_file clock args = agent_main h feature init load_from_file clock (args\<lparr>arg_gpu_layers := n\<rparr>))"
proof
  let ?a2 = "case arg_model args of None \<Rightarrow> agent_new (arg_probe_interval args)
    | Some p \<Rightarrow> load_llama_backend feature init load_from_file (agent_new (arg_probe_interval args)) p
        (if list_ex supports_llama_offload (detect_accelerators h) then arg_gpu_layers args else 0)"
  obtain b where b: "?a2 = (agent_new (arg_probe_interval args))\<lparr>ag_backend := b\<rparr>"
  proof (cases "?a2 = agent_new (arg_probe_interval args)")
    case True
    then show ?thesis using that[of "ag_backend (agent_new (arg_probe_interval args))"] by simp
  next
    case False
    then show ?thesis
      using that by (auto simp: load_llama_backend_def set_local_backend_def split: option.splits sum.splits if_splits)
  qed
  define a3 where "a3 = set_mode_change_callback ?a2"
  have a3: "ag_mode a3 = Online" "ag_callback a3" "ag_stats a3 = ag_stats (agent_new 0)"
    "ag_quality a3 = ag_quality (agent_new 0)"
    unfolding a3_def b by (simp_all add: set_mode_change_callback_def agent_new_def)
  obtain a4 calls where 4: "force_mode a3 (arg_mode args) (clock 0) = (a4, calls)" by fastforce
  obtain a5 rs where 5: "process_demo clock a4 [0..<5] = (a5, rs)" by fastforce
  have main: "agent_main h feature init load_from_file clock args = (agent_stop a5, calls, rs)"
    using 4 5 unfolding agent_main_def a3_def by (simp add: Let_def)
  have off: "is_offline (forced_offline t)" "is_degraded (forced_degraded t)" "\<not> is_offline (forced_degraded t)" for t
    by (simp_all add: forced_offline_def forced_degraded_def is_offline_def is_degraded_def)
  note eff = process_demo_effect[OF 5]
  have stats: "ag_stats (agent_new 0) = \<lparr>frames_processed = 0, cloud_offloads = 0, local_inferences = 0,
      mode_transitions = 0, probe_count = 0\<rparr>" by (simp add: agent_new_def)
  consider (offline) "arg_mode args = ''offline''" | (degraded) "arg_mode args = ''degraded''"
    | (online) "arg_mode args \<noteq> ''offline''" "arg_mode args \<noteq> ''degraded''" by blast
  then show "case agent_main h feature init load_from_file clock args of (a, calls, rs) \<Rightarrow>
      length rs = 5 \<and> frames_processed (ag_stats a) = 5
      \<and> (if arg_mode args = ''offline''
         then calls = [(Online, Offline)] \<and> list_all (\<lambda>r. ir_source r = Local) rs
           \<and> local_inferences (ag_stats a) = 5 \<and> cloud_offloads (ag_stats a) = 0
         else calls = (if arg_mode args = ''degraded'' then [(Online, Degraded)] else [])
           \<and> list_all (\<lambda>r. ir_source r = Cloud) rs
           \<and> cloud_offloads (ag_stats a) = 5 \<and> local_inferences (ag_stats a) = 0)"
  proof cases
    case offline
    then have u: "update_network_quality a3 (forced_offline (clock 0)) = (a4, calls)" using 4 by (simp add: force_mode_def)
    have "ag_mode a4 = Offline"
      using update_network_quality_effect(1,2)[OF u] off(1) by (simp add: determine_mode_def)
    then show ?thesis
      using update_network_quality_effect(5,7)[OF u] eff a3 stats offline by (simp add: main agent_stop_def)
  next
    case degraded
    then have u: "update_network_quality a3 (forced_degraded (clock 0)) = (a4, calls)" using 4 by (simp add: force_mode_def)
    have "ag_mode a4 = Degraded" "\<not> is_offline (ag_quality a4)"
      using update_network_quality_effect(1,2)[OF u] off(2,3) by (simp_all add: determine_mode_def)
    then show ?thesis
      using update_network_quality_effect(5,7)[OF u] eff a3 stats degraded by (simp add: main agent_stop_def)
  next
    case online
    then have "a4 = a3" "calls = []" using 4 by (simp_all add: force_mode_def)
    then show ?thesis using eff a3 stats online by (simp add: main agent_stop_def)
  qed
  show "list_ex supports_llama_offload (detect_accelerators h)
      \<or> agent_main h feature init load_from_file clock args = agent_main h feature init load_from_file clock (args\<lparr>arg_gpu_layers := n\<rparr>)"
    by (auto simp: agent_main_def Let_def)
qed

end
