(* ===== verification/PqcTransport.thy ===== *)
theory PqcTransport
  imports Common
begin

text \<open>
  The transport layer (\<^verbatim>\<open>crates/pqc-transport/src/lib.rs\<close>): sessions with their counter nonces, the
  hybrid key exchange, and the manager that establishes, accepts, uses and cleans up sessions. The
  primitives are third-party code, so they are the fields of a parameter \<open>crypto\<close>; what the crate
  relies on is stated as named hypotheses. Sessions are shared through \<^verbatim>\<open>Arc\<close>, so they live in a
  store and the manager and its callers hold references to them. Randomness and clock readings are
  arguments.
\<close>

section \<open>Primitives\<close>

record crypto =
  x25519_public :: "bytes \<Rightarrow> bytes"
  x25519_diffie_hellman :: "bytes \<Rightarrow> bytes \<Rightarrow> bytes"
  mlkem_ek_size :: nat
  mlkem_ct_size :: nat
  mlkem_ek_of_seed :: "bytes \<Rightarrow> bytes"
  mlkem_ek_valid :: "bytes \<Rightarrow> bool"
  mlkem_encaps :: "bytes \<Rightarrow> bytes \<Rightarrow> bytes \<times> bytes"
  mlkem_decaps :: "bytes \<Rightarrow> bytes \<Rightarrow> bytes"
  sha256 :: "bytes \<Rightarrow> bytes"
  aes_gcm_encrypt :: "bytes \<Rightarrow> bytes \<Rightarrow> bytes \<Rightarrow> bytes \<Rightarrow> string + bytes"
  aes_gcm_decrypt :: "bytes \<Rightarrow> bytes \<Rightarrow> bytes \<Rightarrow> bytes \<Rightarrow> string + bytes"

text \<open>Diffie-Hellman commutes, and decapsulation inverts encapsulation to a generated key.\<close>

definition kem_correct :: "crypto \<Rightarrow> bool" where
  "kem_correct cr \<longleftrightarrow>
     (\<forall>a b. x25519_diffie_hellman cr a (x25519_public cr b) = x25519_diffie_hellman cr b (x25519_public cr a))
     \<and> (\<forall>seed. length (mlkem_ek_of_seed cr seed) = mlkem_ek_size cr
          \<and> mlkem_ek_valid cr (mlkem_ek_of_seed cr seed))
     \<and> (\<forall>seed r. case mlkem_encaps cr (mlkem_ek_of_seed cr seed) r of (ct, ss) \<Rightarrow>
          length ct = mlkem_ct_size cr \<and> length ss = 32 \<and> mlkem_decaps cr seed ct = ss)"

text \<open>
  AES-GCM: with a message and associated data up to the implementation's limits of \<open>2 ^ 36\<close> bytes,
  encryption succeeds, and decryption under the same key, nonce and associated data inverts it.
\<close>

definition aead_correct :: "crypto \<Rightarrow> bool" where
  "aead_correct cr \<longleftrightarrow> (\<forall>k n a m. length n = 12 \<longrightarrow> length m \<le> 2 ^ 36 \<longrightarrow> length a \<le> 2 ^ 36 \<longrightarrow>
     (\<exists>c. aes_gcm_encrypt cr k n a m = Inr c \<and> aes_gcm_decrypt cr k n a c = Inr m))"

section \<open>Sizes\<close>

text \<open>The published sizes in bytes. The first is not what ML-KEM-768's encapsulation keys have.\<close>

definition MLKEM768_PUBLIC_KEY_SIZE :: usize where
  "MLKEM768_PUBLIC_KEY_SIZE = 1088"

definition MLKEM768_SEED_SIZE :: usize where
  "MLKEM768_SEED_SIZE = 64"

definition MLKEM768_CIPHERTEXT_SIZE :: usize where
  "MLKEM768_CIPHERTEXT_SIZE = 1088"

definition MLKEM768_SHARED_SECRET_SIZE :: usize where
  "MLKEM768_SHARED_SECRET_SIZE = 32"

definition X25519_PUBLIC_KEY_SIZE :: usize where
  "X25519_PUBLIC_KEY_SIZE = 32"

definition X25519_SECRET_KEY_SIZE :: usize where
  "X25519_SECRET_KEY_SIZE = 32"

definition X25519_SHARED_SECRET_SIZE :: usize where
  "X25519_SHARED_SECRET_SIZE = 32"

definition HYBRID_SHARED_SECRET_SIZE :: usize where
  "HYBRID_SHARED_SECRET_SIZE = 64"

section \<open>Sessions\<close>

datatype pqc_error =
    KeyExchangeFailed
  | EncapsulationFailed
  | DecapsulationFailed
  | EncryptionFailed string
  | DecryptionFailed string
  | InvalidKeySize usize usize
  | InvalidMlKemKey
  | NonceExhausted u64
  | SessionExpired
  | PqcIo string

fun show_pqc_error :: "pqc_error \<Rightarrow> string" where
  "show_pqc_error KeyExchangeFailed = ''Key exchange failed''"
| "show_pqc_error EncapsulationFailed = ''Encapsulation failed''"
| "show_pqc_error DecapsulationFailed = ''Decapsulation failed''"
| "show_pqc_error (EncryptionFailed s) = ''Encryption failed: '' @ s"
| "show_pqc_error (DecryptionFailed s) = ''Decryption failed: '' @ s"
| "show_pqc_error (InvalidKeySize expected actual) =
     ''Invalid key size: expected '' @ show_word expected @ '', got '' @ show_word actual"
| "show_pqc_error InvalidMlKemKey = ''Invalid ML-KEM key''"
| "show_pqc_error (NonceExhausted i) = ''Nonce exhausted for session '' @ show_word i"
| "show_pqc_error SessionExpired = ''Session expired''"
| "show_pqc_error (PqcIo s) = ''IO error: '' @ s"

record pqc_session =
  session_id :: u64
  send_key :: bytes
  recv_key :: bytes
  send_nonce :: u128
  recv_nonce :: u128
  last_activity :: u64

definition pqc_session_new :: "bytes \<Rightarrow> bytes \<Rightarrow> u64 \<Rightarrow> u64 \<Rightarrow> pqc_session" where
  "pqc_session_new sk rk rand_id now =
     \<lparr>session_id = rand_id, send_key = sk, recv_key = rk, send_nonce = 0, recv_nonce = 0,
      last_activity = now\<rparr>"

text \<open>The nonce of a counter value: the first 12 of its 16 little-endian bytes.\<close>

definition nonce_bytes :: "u128 \<Rightarrow> bytes" where
  "nonce_bytes n = take 12 (le_bytes 16 n)"

definition pqc_encrypt :: "crypto \<Rightarrow> pqc_session \<Rightarrow> bytes \<Rightarrow> bytes \<Rightarrow> u64
    \<Rightarrow> pqc_session \<times> (pqc_error + bytes)" where
  "pqc_encrypt cr s plaintext associated_data now =
     (if send_nonce s \<ge> 2 ^ 64 then (s, Inl (NonceExhausted (session_id s)))
      else (case aes_gcm_encrypt cr (send_key s) (nonce_bytes (send_nonce s)) associated_data plaintext of
        Inl e \<Rightarrow> (s, Inl (EncryptionFailed e))
      | Inr ciphertext \<Rightarrow>
          (s\<lparr>send_nonce := send_nonce s + 1, last_activity := now\<rparr>, Inr ciphertext)))"

definition pqc_decrypt :: "crypto \<Rightarrow> pqc_session \<Rightarrow> bytes \<Rightarrow> bytes \<Rightarrow> u64
    \<Rightarrow> pqc_session \<times> (pqc_error + bytes)" where
  "pqc_decrypt cr s ciphertext associated_data now =
     (if recv_nonce s \<ge> 2 ^ 64 then (s, Inl (NonceExhausted (session_id s)))
      else (case aes_gcm_decrypt cr (recv_key s) (nonce_bytes (recv_nonce s)) associated_data ciphertext of
        Inl e \<Rightarrow> (s, Inl (DecryptionFailed e))
      | Inr plaintext \<Rightarrow>
          (s\<lparr>recv_nonce := recv_nonce s + 1, last_activity := now\<rparr>, Inr plaintext)))"

definition is_expired :: "pqc_session \<Rightarrow> u64 \<Rightarrow> u64 \<Rightarrow> bool" where
  "is_expired s timeout_nanos now \<longleftrightarrow> saturating_sub now (last_activity s) > timeout_nanos"

section \<open>Hybrid key exchange\<close>

record hybrid_public_key =
  pk_x25519 :: bytes
  pk_mlkem :: bytes

record hybrid_secret_key =
  sk_x25519 :: bytes
  sk_mlkem_seed :: bytes

record hybrid_encapsulation =
  enc_x25519_ephemeral :: bytes
  enc_mlkem_ciphertext :: bytes

record hybrid_kem =
  local_secret :: hybrid_secret_key
  local_public :: hybrid_public_key

definition kem_generate :: "crypto \<Rightarrow> bytes \<Rightarrow> bytes \<Rightarrow> hybrid_kem" where
  "kem_generate cr x25519_secret mlkem_seed =
     \<lparr>local_secret = \<lparr>sk_x25519 = x25519_secret, sk_mlkem_seed = mlkem_seed\<rparr>,
      local_public = \<lparr>pk_x25519 = x25519_public cr x25519_secret,
                      pk_mlkem = mlkem_ek_of_seed cr mlkem_seed\<rparr>\<rparr>"

definition kem_public_key :: "hybrid_kem \<Rightarrow> hybrid_public_key" where
  "kem_public_key kem = local_public kem"

definition kem_seed :: "hybrid_kem \<Rightarrow> bytes" where
  "kem_seed kem = sk_mlkem_seed (local_secret kem)"

definition x25519_dh_real :: "crypto \<Rightarrow> bytes \<Rightarrow> bytes \<Rightarrow> pqc_error + bytes" where
  "x25519_dh_real cr seckey pubkey = Inr (x25519_diffie_hellman cr seckey pubkey)"

definition mlkem_encapsulate :: "crypto \<Rightarrow> bytes \<Rightarrow> bytes \<Rightarrow> pqc_error + bytes \<times> bytes" where
  "mlkem_encapsulate cr pubkey rnd =
     (if length pubkey \<noteq> mlkem_ek_size cr \<or> \<not> mlkem_ek_valid cr pubkey then Inl InvalidMlKemKey
      else (case mlkem_encaps cr pubkey rnd of (ct, ss) \<Rightarrow>
        if length ss \<noteq> 32 then Inl EncapsulationFailed else Inr (ct, ss)))"

definition mlkem_decapsulate :: "crypto \<Rightarrow> hybrid_kem \<Rightarrow> bytes \<Rightarrow> pqc_error + bytes" where
  "mlkem_decapsulate cr kem ct =
     (if length ct \<noteq> mlkem_ct_size cr then Inl InvalidMlKemKey
      else (let ss = mlkem_decaps cr (sk_mlkem_seed (local_secret kem)) ct
            in if length ss \<noteq> 32 then Inl DecapsulationFailed else Inr ss))"

text \<open>Both sides hash the two shared secrets, X25519 first.\<close>

definition combine_secrets :: "crypto \<Rightarrow> bytes \<Rightarrow> bytes \<Rightarrow> bytes" where
  "combine_secrets cr x25519_shared mlkem_shared = sha256 cr (x25519_shared @ mlkem_shared)"

definition encapsulate_to_peer :: "crypto \<Rightarrow> hybrid_public_key \<Rightarrow> bytes \<Rightarrow> bytes
    \<Rightarrow> pqc_error + hybrid_encapsulation \<times> bytes" where
  "encapsulate_to_peer cr remote eph_secret rnd =
     (case x25519_dh_real cr eph_secret (pk_x25519 remote) of
        Inl e \<Rightarrow> Inl e
      | Inr x25519_shared \<Rightarrow>
          (case mlkem_encapsulate cr (pk_mlkem remote) rnd of
             Inl e \<Rightarrow> Inl e
           | Inr (ct, mlkem_shared) \<Rightarrow>
               Inr (\<lparr>enc_x25519_ephemeral = x25519_public cr eph_secret, enc_mlkem_ciphertext = ct\<rparr>,
                    combine_secrets cr x25519_shared mlkem_shared)))"

definition decapsulate_from_peer :: "crypto \<Rightarrow> hybrid_kem \<Rightarrow> hybrid_encapsulation
    \<Rightarrow> pqc_error + bytes" where
  "decapsulate_from_peer cr kem enc =
     (case x25519_dh_real cr (sk_x25519 (local_secret kem)) (enc_x25519_ephemeral enc) of
        Inl e \<Rightarrow> Inl e
      | Inr x25519_shared \<Rightarrow>
          (case mlkem_decapsulate cr kem (enc_mlkem_ciphertext enc) of
             Inl e \<Rightarrow> Inl e
           | Inr mlkem_shared \<Rightarrow> Inr (combine_secrets cr x25519_shared mlkem_shared)))"

section \<open>The transport manager\<close>

text \<open>The sessions that exist, the references the manager holds, and its timeout.\<close>

record transport =
  tr_store :: "pqc_session list"
  tr_sessions :: "nat list"
  tr_timeout_nanos :: u64

definition transport_new :: "u64 \<Rightarrow> transport" where
  "transport_new session_timeout_secs =
     \<lparr>tr_store = [], tr_sessions = [], tr_timeout_nanos = session_timeout_secs * 1000000000\<rparr>"

definition key_material :: "bytes \<Rightarrow> string \<Rightarrow> bytes" where
  "key_material shared_key label = shared_key @ as_bytes label @ replicate 28 0"

definition add_session :: "transport \<Rightarrow> pqc_session \<Rightarrow> transport \<times> nat" where
  "add_session t s =
     (t\<lparr>tr_store := tr_store t @ [s], tr_sessions := tr_sessions t @ [length (tr_store t)]\<rparr>,
      length (tr_store t))"

definition establish_session :: "crypto \<Rightarrow> transport \<Rightarrow> hybrid_public_key \<Rightarrow> bytes \<Rightarrow> bytes
    \<Rightarrow> u64 \<Rightarrow> u64 \<Rightarrow> transport \<times> (pqc_error + nat \<times> hybrid_encapsulation)" where
  "establish_session cr t remote eph_secret rnd rand_id now =
     (case encapsulate_to_peer cr remote eph_secret rnd of
        Inl e \<Rightarrow> (t, Inl e)
      | Inr (encapsulation, shared_key) \<Rightarrow>
          (let sk = sha256 cr (key_material shared_key ''SEND'');
               rk = sha256 cr (key_material shared_key ''RECV'')
           in case add_session t (pqc_session_new sk rk rand_id now) of
                (t', r) \<Rightarrow> (t', Inr (r, encapsulation))))"

definition accept_session :: "crypto \<Rightarrow> transport \<Rightarrow> hybrid_kem \<Rightarrow> hybrid_encapsulation
    \<Rightarrow> u64 \<Rightarrow> u64 \<Rightarrow> transport \<times> (pqc_error + nat)" where
  "accept_session cr t kem encapsulation rand_id now =
     (case decapsulate_from_peer cr kem encapsulation of
        Inl e \<Rightarrow> (t, Inl e)
      | Inr shared_key \<Rightarrow>
          (let rk = sha256 cr (key_material shared_key ''SEND'');
               sk = sha256 cr (key_material shared_key ''RECV'')
           in case add_session t (pqc_session_new sk rk rand_id now) of
                (t', r) \<Rightarrow> (t', Inr r)))"

text \<open>The associated data is the frame number in little-endian bytes.\<close>

definition encrypt_frame :: "crypto \<Rightarrow> transport \<Rightarrow> nat \<Rightarrow> telemetry_frame \<Rightarrow> u64
    \<Rightarrow> transport \<times> (pqc_error + encrypted_frame)" where
  "encrypt_frame cr t r frame now =
     (case pqc_encrypt cr (tr_store t ! r) (payload frame) (le_bytes 8 (frame_id frame)) now of
        (s, res) \<Rightarrow>
          (t\<lparr>tr_store := (tr_store t)[r := s]\<rparr>,
           case res of
             Inl e \<Rightarrow> Inl e
           | Inr ciphertext \<Rightarrow>
               Inr \<lparr>ef_frame_id = frame_id frame, ef_nonce = replicate 12 0,
                    ef_ciphertext = ciphertext, ef_tag = replicate 16 0\<rparr>))"

definition decrypt_frame :: "crypto \<Rightarrow> transport \<Rightarrow> nat \<Rightarrow> encrypted_frame \<Rightarrow> u64
    \<Rightarrow> transport \<times> (pqc_error + bytes)" where
  "decrypt_frame cr t r encrypted now =
     (case pqc_decrypt cr (tr_store t ! r) (ef_ciphertext encrypted)
             (le_bytes 8 (ef_frame_id encrypted)) now of
        (s, res) \<Rightarrow> (t\<lparr>tr_store := (tr_store t)[r := s]\<rparr>, res))"

text \<open>\<open>retain\<close> asks the clock once per session: \<open>clock i\<close> is the reading for the \<open>i\<close>th.\<close>

definition cleanup_expired :: "transport \<Rightarrow> (nat \<Rightarrow> u64) \<Rightarrow> transport \<times> usize" where
  "cleanup_expired t clock =
     (let kept = map fst (filter (\<lambda>(r, i). \<not> is_expired (tr_store t ! r) (tr_timeout_nanos t) (clock i))
                   (zip (tr_sessions t) [0..<length (tr_sessions t)]))
      in (t\<lparr>tr_sessions := kept\<rparr>, usize_len (tr_sessions t) - usize_len kept))"

definition session_count :: "transport \<Rightarrow> usize" where
  "session_count t = usize_len (tr_sessions t)"

section \<open>Counters and nonces\<close>

lemma length_nonce_bytes [simp]: "length (nonce_bytes n) = 12"
  by (simp add: nonce_bytes_def)

lemma eight_le_limit: "(8 :: nat) \<le> 2 ^ 36"
  by simp

text \<open>
  A direction of a session: the operation that uses its counter as nonce, and an operation for the
  opposite direction. A run makes calls of both in any order and logs, for each call of the
  direction that succeeds, the counter it used with the input, the associated data and the output.
\<close>

type_synonym session_op =
  "pqc_session \<Rightarrow> bytes \<Rightarrow> bytes \<Rightarrow> u64 \<Rightarrow> pqc_session \<times> (pqc_error + bytes)"

fun session_run :: "session_op \<Rightarrow> session_op \<Rightarrow> (pqc_session \<Rightarrow> u128) \<Rightarrow> pqc_session
    \<Rightarrow> (bool \<times> bytes \<times> bytes \<times> u64) list \<Rightarrow> pqc_session \<times> (u128 \<times> bytes \<times> bytes \<times> bytes) list" where
  "session_run own other counter s [] = (s, [])"
| "session_run own other counter s ((mine, m, a, now) # calls) =
     (if mine then
        (case own s m a now of
           (s', Inl e) \<Rightarrow> session_run own other counter s' calls
         | (s', Inr c) \<Rightarrow>
             (case session_run own other counter s' calls of
                (s'', used) \<Rightarrow> (s'', (counter s, m, a, c) # used)))
      else session_run own other counter (fst (other s m a now)) calls)"

lemma nonce_bytes_inject:
  assumes "nonce_bytes v = nonce_bytes w" and "unat v < 2 ^ 64" "unat w < 2 ^ 64"
  shows "v = w"
  using assms by (intro le_bytes_inject[of 12]) (simp_all add: nonce_bytes_def take_le_bytes)

locale nonce_discipline =
  fixes own other :: session_op
    and counter :: "pqc_session \<Rightarrow> u128"
    and key :: "pqc_session \<Rightarrow> bytes"
    and primitive :: "bytes \<Rightarrow> bytes \<Rightarrow> bytes \<Rightarrow> bytes \<Rightarrow> string + bytes"
  assumes exhausted: "2 ^ 64 \<le> counter s \<Longrightarrow> own s m a now = (s, Inl (NonceExhausted (session_id s)))"
    and failed: "own s m a now = (s', Inl e) \<Longrightarrow> s' = s"
    and succeeded: "own s m a now = (s', Inr c) \<Longrightarrow>
      counter s < 2 ^ 64 \<and> counter s' = counter s + 1 \<and> key s' = key s
      \<and> primitive (key s) (nonce_bytes (counter s)) a m = Inr c"
    and other_keeps: "counter (fst (other s m a now)) = counter s \<and> key (fst (other s m a now)) = key s"
begin

lemma counter_step:
  assumes "own s m a now = (s', Inr c)"
  shows "unat (counter s') = unat (counter s) + 1" "unat (counter s) < 2 ^ 64"
proof -
  have *: "counter s < 2 ^ 64" "counter s' = counter s + 1" using succeeded[OF assms] by simp_all
  then show "unat (counter s) < 2 ^ 64" by (simp add: word_less_nat_alt)
  then show "unat (counter s') = unat (counter s) + 1"
    using *(2) by (simp add: unat_add_no_wrap)
qed

lemma run_log:
  assumes "session_run own other counter s calls = (s', used)" and "unat (counter s) \<le> 2 ^ 64"
  shows "map (unat \<circ> fst) used = [unat (counter s) ..< unat (counter s')]
    \<and> unat (counter s) \<le> unat (counter s') \<and> unat (counter s') \<le> 2 ^ 64 \<and> key s' = key s
    \<and> list_all (\<lambda>(n, m, a, c). primitive (key s) (nonce_bytes n) a m = Inr c) used"
  using assms
proof (induction calls arbitrary: s used)
  case (Cons call calls)
  obtain mine m a now where call: "call = (mine, m, a, now)" by (cases call)
  show ?case
  proof (cases mine)
    case False
    with Cons.prems Cons.IH[of "fst (other s m a now)" used] show ?thesis
      by (auto simp: call other_keeps)
  next
    case True
    obtain t res where t: "own s m a now = (t, res)" by fastforce
    show ?thesis
    proof (cases res)
      case (Inl e)
      then show ?thesis using Cons.IH Cons.prems True t failed[of s m a now] by (simp add: call)
    next
      case (Inr c)
      obtain v where v: "session_run own other counter t calls = (s', v)" "used = (counter s, m, a, c) # v"
        using Cons.prems(1) True t Inr by (auto simp: call split: prod.splits)
      note step = counter_step[OF t[unfolded Inr]] succeeded[OF t[unfolded Inr]]
      have "unat (counter t) \<le> 2 ^ 64" using step by simp
      from Cons.IH[OF v(1) this] show ?thesis
        using step v(2) by (auto simp: upt_conv_Cons)
    qed
  qed
qed simp

lemma run_nonces_distinct:
  assumes "session_run own other counter s calls = (s', used)" and "unat (counter s) \<le> 2 ^ 64"
  shows "distinct (map (nonce_bytes \<circ> fst) used)"
proof -
  have m: "map (unat \<circ> fst) used = [unat (counter s) ..< unat (counter s')]"
    and le: "unat (counter s') \<le> 2 ^ 64"
    using run_log[OF assms] by auto
  have "distinct (map (unat \<circ> fst) used)" unfolding m by simp
  then have "distinct used" and inj: "inj_on (unat \<circ> fst) (set used)"
    by (simp_all only: distinct_map)
  moreover have small: "unat (fst x) < 2 ^ 64" if "x \<in> set used" for x
  proof -
    have "unat (fst x) \<in> set (map (unat \<circ> fst) used)" using that by force
    then show ?thesis unfolding m using le by auto
  qed
  have "inj_on (nonce_bytes \<circ> fst) (set used)"
  proof (rule inj_onI)
    fix x y assume xy: "x \<in> set used" "y \<in> set used" "(nonce_bytes \<circ> fst) x = (nonce_bytes \<circ> fst) y"
    then have "fst x = fst y" using small by (intro nonce_bytes_inject) simp_all
    then show "x = y" using xy by (intro inj_onD[OF inj]) simp_all
  qed
  ultimately show ?thesis by (simp only: distinct_map)
qed

lemma run_exhausts:
  assumes "session_run own other counter s calls = (s', used)" and "unat (counter s) = 0"
    and "length used = 2 ^ 64"
  shows "own s' m a now = (s', Inl (NonceExhausted (session_id s')))"
proof -
  have "length (map (unat \<circ> fst) used) = unat (counter s')"
    using run_log[OF assms(1)] assms(2) by simp
  then have "unat (counter s') = 2 ^ 64" using assms(3) by simp
  then show ?thesis by (intro exhausted) (simp add: word_le_nat_alt)
qed

end

interpretation sending: nonce_discipline "pqc_encrypt cr" "pqc_decrypt cr" send_nonce send_key
    "aes_gcm_encrypt cr" for cr
  by unfold_locales
    (auto simp: pqc_encrypt_def pqc_decrypt_def not_le split: if_splits sum.splits)

interpretation receiving: nonce_discipline "pqc_decrypt cr" "pqc_encrypt cr" recv_nonce recv_key
    "aes_gcm_decrypt cr" for cr
  by unfold_locales
    (auto simp: pqc_encrypt_def pqc_decrypt_def not_le split: if_splits sum.splits)

section \<open>Frames over a channel\<close>

text \<open>A sequence of frames sent over one session, and a sequence received, with the clock readings.\<close>

fun send_frames :: "crypto \<Rightarrow> transport \<Rightarrow> nat \<Rightarrow> (telemetry_frame \<times> u64) list
    \<Rightarrow> transport \<times> (pqc_error + encrypted_frame) list" where
  "send_frames cr t r [] = (t, [])"
| "send_frames cr t r ((f, now) # fs) =
     (case encrypt_frame cr t r f now of (t', x) \<Rightarrow>
        case send_frames cr t' r fs of (t'', xs) \<Rightarrow> (t'', x # xs))"

fun receive_frames :: "crypto \<Rightarrow> transport \<Rightarrow> nat \<Rightarrow> (encrypted_frame \<times> u64) list
    \<Rightarrow> transport \<times> (pqc_error + bytes) list" where
  "receive_frames cr t r [] = (t, [])"
| "receive_frames cr t r ((ef, now) # efs) =
     (case decrypt_frame cr t r ef now of (t', x) \<Rightarrow>
        case receive_frames cr t' r efs of (t'', xs) \<Rightarrow> (t'', x # xs))"

text \<open>Two sessions are linked when what one sends is what the other expects next.\<close>

definition linked :: "pqc_session \<Rightarrow> pqc_session \<Rightarrow> bool" where
  "linked s p \<longleftrightarrow> send_key s = recv_key p \<and> send_nonce s = recv_nonce p"

lemma send_frame_ok:
  assumes "aead_correct cr" and "r < length (tr_store t)"
    and "length (payload f) \<le> 2 ^ 36" and "unat (send_nonce (tr_store t ! r)) < 2 ^ 64"
  obtains t' ef where "encrypt_frame cr t r f now = (t', Inr ef)" "ef_frame_id ef = frame_id f"
    "length (tr_store t') = length (tr_store t)" "send_key (tr_store t' ! r) = send_key (tr_store t ! r)"
    "send_nonce (tr_store t' ! r) = send_nonce (tr_store t ! r) + 1"
    "aes_gcm_decrypt cr (send_key (tr_store t ! r)) (nonce_bytes (send_nonce (tr_store t ! r)))
       (le_bytes 8 (frame_id f)) (ef_ciphertext ef) = Inr (payload f)"
proof -
  obtain c where "aes_gcm_encrypt cr (send_key (tr_store t ! r)) (nonce_bytes (send_nonce (tr_store t ! r)))
      (le_bytes 8 (frame_id f)) (payload f) = Inr c"
    "aes_gcm_decrypt cr (send_key (tr_store t ! r)) (nonce_bytes (send_nonce (tr_store t ! r)))
       (le_bytes 8 (frame_id f)) c = Inr (payload f)"
    using assms(1,3) unfolding aead_correct_def by (metis length_le_bytes length_nonce_bytes eight_le_limit)
  with assms(2,4) that show thesis
    by (simp add: encrypt_frame_def pqc_encrypt_def not_le word_less_nat_alt)
qed

lemma send_frames_keep:
  assumes "send_frames cr t r fs = (t', xs)" and "r < length (tr_store t)"
  shows "length (tr_store t') = length (tr_store t)
    \<and> recv_key (tr_store t' ! r) = recv_key (tr_store t ! r)
    \<and> recv_nonce (tr_store t' ! r) = recv_nonce (tr_store t ! r)"
  using assms
proof (induction cr t r fs arbitrary: t' xs rule: send_frames.induct)
  case (2 cr t r f now fs)
  obtain t1 x where 1: "encrypt_frame cr t r f now = (t1, x)" by fastforce
  have "length (tr_store t1) = length (tr_store t) \<and> recv_key (tr_store t1 ! r) = recv_key (tr_store t ! r)
      \<and> recv_nonce (tr_store t1 ! r) = recv_nonce (tr_store t ! r)"
    using 1 2(3) by (auto simp: encrypt_frame_def pqc_encrypt_def split: prod.splits sum.splits if_splits)
  then show ?case using 2 1 by (auto split: prod.splits)
qed simp

lemma receive_frames_keep:
  assumes "receive_frames cr t r efs = (t', xs)" and "r < length (tr_store t)"
  shows "length (tr_store t') = length (tr_store t)
    \<and> send_key (tr_store t' ! r) = send_key (tr_store t ! r)
    \<and> send_nonce (tr_store t' ! r) = send_nonce (tr_store t ! r)"
  using assms
proof (induction cr t r efs arbitrary: t' xs rule: receive_frames.induct)
  case (2 cr t r ef now efs)
  obtain t1 x where 1: "decrypt_frame cr t r ef now = (t1, x)" by fastforce
  have "length (tr_store t1) = length (tr_store t) \<and> send_key (tr_store t1 ! r) = send_key (tr_store t ! r)
      \<and> send_nonce (tr_store t1 ! r) = send_nonce (tr_store t ! r)"
    using 1 2(3) by (auto simp: decrypt_frame_def pqc_decrypt_def split: prod.splits sum.splits if_splits)
  then show ?case using 2 1 by (auto split: prod.splits)
qed simp

lemma receive_frame_ok:
  assumes "q < length (tr_store u)" and "unat (recv_nonce (tr_store u ! q)) < 2 ^ 64"
    and "aes_gcm_decrypt cr (recv_key (tr_store u ! q)) (nonce_bytes (recv_nonce (tr_store u ! q)))
       (le_bytes 8 (ef_frame_id ef)) (ef_ciphertext ef) = Inr m"
  obtains u' where "decrypt_frame cr u q ef now = (u', Inr m)"
    "length (tr_store u') = length (tr_store u)" "recv_key (tr_store u' ! q) = recv_key (tr_store u ! q)"
    "recv_nonce (tr_store u' ! q) = recv_nonce (tr_store u ! q) + 1"
  using assms that by (simp add: decrypt_frame_def pqc_decrypt_def not_le word_less_nat_alt)

lemma failed_receive_keeps:
  assumes "decrypt_frame cr u q ef now = (u', Inl e)"
  shows "u' = u"
proof -
  obtain s where "pqc_decrypt cr (tr_store u ! q) (ef_ciphertext ef) (le_bytes 8 (ef_frame_id ef)) now
      = (s, Inl e)" "u' = u\<lparr>tr_store := (tr_store u)[q := s]\<rparr>"
    using assms by (auto simp: decrypt_frame_def split: prod.splits)
  moreover from receiving.failed[OF this(1)] have "s = tr_store u ! q" .
  ultimately show ?thesis by simp
qed

lemma channel_delivers:
  assumes "aead_correct cr"
  shows "r < length (tr_store t) \<Longrightarrow> q < length (tr_store u) \<Longrightarrow> linked (tr_store t ! r) (tr_store u ! q)
    \<Longrightarrow> list_all (\<lambda>(f, now). length (payload f) \<le> 2 ^ 36) fs
    \<Longrightarrow> unat (send_nonce (tr_store t ! r)) + length fs \<le> 2 ^ 64 \<Longrightarrow> length nows = length fs
    \<Longrightarrow> \<exists>t' u' efs. send_frames cr t r fs = (t', map Inr efs)
      \<and> map ef_frame_id efs = map (frame_id \<circ> fst) fs
      \<and> receive_frames cr u q (zip efs nows) = (u', map (Inr \<circ> payload \<circ> fst) fs)
      \<and> linked (tr_store t' ! r) (tr_store u' ! q)"
proof (induction fs arbitrary: t u nows)
  case Nil
  then show ?case by (intro exI[of _ t] exI[of _ u] exI[of _ "[]"]) simp
next
  case (Cons x fs)
  obtain f now where x: "x = (f, now)" by (cases x)
  obtain now' nows' where nows: "nows = now' # nows'" "length nows' = length fs"
    using Cons.prems(6) by (cases nows) auto
  have lt: "unat (send_nonce (tr_store t ! r)) < 2 ^ 64" using Cons.prems(5) by simp
  have link: "recv_key (tr_store u ! q) = send_key (tr_store t ! r)"
    "recv_nonce (tr_store u ! q) = send_nonce (tr_store t ! r)"
    using Cons.prems(3) by (simp_all add: linked_def)
  obtain t1 ef where s: "encrypt_frame cr t r f now = (t1, Inr ef)" "ef_frame_id ef = frame_id f"
    "length (tr_store t1) = length (tr_store t)" "send_key (tr_store t1 ! r) = send_key (tr_store t ! r)"
    "send_nonce (tr_store t1 ! r) = send_nonce (tr_store t ! r) + 1"
    "aes_gcm_decrypt cr (send_key (tr_store t ! r)) (nonce_bytes (send_nonce (tr_store t ! r)))
       (le_bytes 8 (frame_id f)) (ef_ciphertext ef) = Inr (payload f)"
    using send_frame_ok[OF assms Cons.prems(1) _ lt, of f now] Cons.prems(4) x by auto
  obtain u1 where d: "decrypt_frame cr u q ef now' = (u1, Inr (payload f))"
    "length (tr_store u1) = length (tr_store u)" "recv_key (tr_store u1 ! q) = recv_key (tr_store u ! q)"
    "recv_nonce (tr_store u1 ! q) = recv_nonce (tr_store u ! q) + 1"
    using receive_frame_ok[OF Cons.prems(2), of cr ef "payload f" now'] lt link s(2,6) by auto
  have "linked (tr_store t1 ! r) (tr_store u1 ! q)" using link s(4,5) d(3,4) by (simp add: linked_def)
  moreover have "unat (send_nonce (tr_store t1 ! r)) + length fs \<le> 2 ^ 64"
    using Cons.prems(5) lt s(5) by (simp add: unat_add_no_wrap)
  ultimately obtain t2 u2 efs where "send_frames cr t1 r fs = (t2, map Inr efs)"
    "map ef_frame_id efs = map (frame_id \<circ> fst) fs"
    "receive_frames cr u1 q (zip efs nows') = (u2, map (Inr \<circ> payload \<circ> fst) fs)"
    "linked (tr_store t2 ! r) (tr_store u2 ! q)"
    using Cons.IH[of t1 u1 nows'] Cons.prems(1,2,4) s(3) d(2) nows(2) by auto
  then show ?case
    using s(1,2) d(1) x nows by (intro exI[of _ t2] exI[of _ u2] exI[of _ "ef # efs"]) simp
qed

section \<open>Properties\<close>

text \<open>A toy instance of the primitives that satisfies all the hypotheses above.\<close>

definition toy_crypto :: crypto where
  "toy_crypto = \<lparr>x25519_public = id, x25519_diffie_hellman = (\<lambda>a b. map2 (+) a b),
     mlkem_ek_size = 1, mlkem_ct_size = 32, mlkem_ek_of_seed = (\<lambda>_. [7]), mlkem_ek_valid = (\<lambda>_. True),
     mlkem_encaps = (\<lambda>_ r. let k = take 32 (r @ replicate 32 0) in (k, k)), mlkem_decaps = (\<lambda>_ ct. ct),
     sha256 = id,
     aes_gcm_encrypt = (\<lambda>k n a m. Inr (n @ a @ m)),
     aes_gcm_decrypt = (\<lambda>k n a c. if take (length n + length a) c = n @ a
        then Inr (drop (length n + length a) c) else Inl ''aead::Error'')\<rparr>"

lemma map2_add_commute: "map2 (+) (a :: bytes) b = map2 (+) b a"
  by (induction a b rule: list_induct2') (auto simp: add.commute)

lemma toy_kem: "kem_correct toy_crypto"
  by (auto simp: kem_correct_def toy_crypto_def map2_add_commute Let_def)

lemma toy_aead: "aead_correct toy_crypto"
  by (auto simp: aead_correct_def toy_crypto_def)

definition toy_frame :: telemetry_frame where
  "toy_frame = \<lparr>frame_id = 3, source_ip = ''10.0.0.1'', dest_ip = None, timestamp_ns = 0,
     payload = [1, 2], metadata = default_metadata\<rparr>"

definition toy_ends :: "transport \<times> transport" where
  "toy_ends = (fst (add_session (transport_new 60) (pqc_session_new [1] [2] 5 0)),
               fst (add_session (transport_new 60) (pqc_session_new [2] [1] 6 0)))"

lemmas toy_simps = toy_ends_def add_session_def transport_new_def pqc_session_new_def linked_def

text \<open>C1: The two ends of a session never encrypt two messages under the same key and nonce: however
  each end interleaves its \<open>encrypt\<close> and \<open>decrypt\<close> calls, every ciphertext it produces is an AES-GCM
  encryption under its send key and a nonce of its own, all (key, nonce) pairs of both ends are
  distinct, and an end that has used \<open>2 ^ 64\<close> nonces refuses to encrypt. The condition is that the
  two keys of the session differ; the handshake hashes them from the labels \<^verbatim>\<open>SEND\<close> and \<^verbatim>\<open>RECV\<close>, so they
  do unless SHA-256 has a collision there.\<close>

theorem key_nonce_pairs_distinct:
  assumes "sk \<noteq> rk"
    and "session_run (pqc_encrypt cr) (pqc_decrypt cr) send_nonce (pqc_session_new sk rk id1 t1) calls1
      = (s, used1)"
    and "session_run (pqc_encrypt cr) (pqc_decrypt cr) send_nonce (pqc_session_new rk sk id2 t2) calls2
      = (p, used2)"
  shows "distinct (map (\<lambda>(n, _). (sk, nonce_bytes n)) used1 @ map (\<lambda>(n, _). (rk, nonce_bytes n)) used2)
    \<and> list_all (\<lambda>(n, m, a, c). aes_gcm_encrypt cr sk (nonce_bytes n) a m = Inr c) used1
    \<and> list_all (\<lambda>(n, m, a, c). aes_gcm_encrypt cr rk (nonce_bytes n) a m = Inr c) used2
    \<and> (length used1 = 2 ^ 64 \<longrightarrow> pqc_encrypt cr s m a now = (s, Inl (NonceExhausted (session_id s))))"
proof -
  let ?s = "pqc_session_new sk rk id1 t1" and ?p = "pqc_session_new rk sk id2 t2"
  have 0: "unat (send_nonce ?s) = 0" "unat (send_nonce ?p) = 0" "send_key ?s = sk" "send_key ?p = rk"
    by (simp_all add: pqc_session_new_def)
  have "distinct (map (\<lambda>(n, _). (k, nonce_bytes n)) used)"
    if "distinct (map (nonce_bytes \<circ> fst) used)" for used :: "(u128 \<times> bytes \<times> bytes \<times> bytes) list" and k :: bytes
  proof -
    have "distinct (map (Pair k) (map (nonce_bytes \<circ> fst) used))"
      using that unfolding distinct_map[of "Pair k"] by (simp add: inj_on_def)
    then show ?thesis by (simp add: comp_def case_prod_beta')
  qed
  with sending.run_nonces_distinct[OF assms(2)] sending.run_nonces_distinct[OF assms(3)]
    sending.run_log[OF assms(2)] sending.run_log[OF assms(3)] sending.run_exhausts[OF assms(2)] 0 assms(1)
  show ?thesis by auto
qed

theorem key_nonce_pairs_distinct_witness:
  "distinct (map (\<lambda>(n, _). ([1 :: u8], nonce_bytes n))
     (snd (session_run (pqc_encrypt toy_crypto) (pqc_decrypt toy_crypto) send_nonce
       (pqc_session_new [1] [2] 5 0) [(True, [9], [], 1), (False, [8], [], 2), (True, [9], [], 3)]))
   @ map (\<lambda>(n, _). ([2 :: u8], nonce_bytes n)) [])"
proof -
  obtain s used where u: "session_run (pqc_encrypt toy_crypto) (pqc_decrypt toy_crypto) send_nonce
       (pqc_session_new [1] [2] 5 0) [(True, [9], [], 1), (False, [8], [], 2), (True, [9], [], 3)] = (s, used)"
    by fastforce
  have v: "session_run (pqc_encrypt toy_crypto) (pqc_decrypt toy_crypto) send_nonce
       (pqc_session_new [2] [1] 6 0) [] = (pqc_session_new [2] [1] 6 0, [])" by simp
  from key_nonce_pairs_distinct[OF _ u v] show ?thesis unfolding u by simp
qed

lemma key_exchange_agrees:
  assumes "kem_correct cr"
  obtains enc shared where
    "encapsulate_to_peer cr (local_public (kem_generate cr x25519_secret mlkem_seed)) eph rnd = Inr (enc, shared)"
    "decapsulate_from_peer cr (kem_generate cr x25519_secret mlkem_seed) enc = Inr shared"
proof -
  obtain ct ss where e: "mlkem_encaps cr (mlkem_ek_of_seed cr mlkem_seed) rnd = (ct, ss)" by fastforce
  have "case mlkem_encaps cr (mlkem_ek_of_seed cr mlkem_seed) rnd of (ct, ss) \<Rightarrow>
      length ct = mlkem_ct_size cr \<and> length ss = 32 \<and> mlkem_decaps cr mlkem_seed ct = ss"
    using assms unfolding kem_correct_def by (elim conjE allE)
  then have "length ct = mlkem_ct_size cr" "length ss = 32" "mlkem_decaps cr mlkem_seed ct = ss"
    unfolding e by simp_all
  moreover have "length (mlkem_ek_of_seed cr mlkem_seed) = mlkem_ek_size cr"
      "mlkem_ek_valid cr (mlkem_ek_of_seed cr mlkem_seed)"
    and "x25519_diffie_hellman cr x25519_secret (x25519_public cr eph)
      = x25519_diffie_hellman cr eph (x25519_public cr x25519_secret)"
    using assms unfolding kem_correct_def by blast+
  ultimately show thesis
    using e that by (simp add: encapsulate_to_peer_def decapsulate_from_peer_def mlkem_encapsulate_def
        mlkem_decapsulate_def kem_generate_def x25519_dh_real_def combine_secrets_def)
qed

lemma handshake:
  assumes "kem_correct cr" and "kem = kem_generate cr x25519_secret mlkem_seed"
  obtains t' r enc u' q where "establish_session cr t (local_public kem) eph rnd id1 now1 = (t', Inr (r, enc))"
    "accept_session cr u kem enc id2 now2 = (u', Inr q)"
    "linked (tr_store t' ! r) (tr_store u' ! q)" "linked (tr_store u' ! q) (tr_store t' ! r)"
    "session_count t' = session_count t + 1" "session_count u' = session_count u + 1"
    "r < length (tr_store t')" "q < length (tr_store u')"
    "send_nonce (tr_store t' ! r) = 0" "send_nonce (tr_store u' ! q) = 0"
proof -
  obtain enc shared where "encapsulate_to_peer cr (local_public kem) eph rnd = Inr (enc, shared)"
    "decapsulate_from_peer cr kem enc = Inr shared"
    unfolding assms(2) by (rule key_exchange_agrees[OF assms(1)])
  then show thesis
    using that by (simp add: establish_session_def accept_session_def add_session_def pqc_session_new_def linked_def
        session_count_def usize_len_def)
qed

text \<open>C7: How a handshake can end: \<open>establish_session\<close> fails exactly for a malformed ML-KEM key and
  \<open>accept_session\<close> exactly for a ciphertext of the wrong length, both with \<open>InvalidMlKemKey\<close> and an
  unchanged manager. Otherwise the manager has one session more, the last one, with both counters
  at zero and the others as they were. So no end learns who the peer is, or that the two ends
  have derived different keys: any ciphertext of the right length is accepted, established or not.\<close>

theorem handshake_outcome:
  assumes "\<And>k r. length (snd (mlkem_encaps cr k r)) = 32" and "\<And>sd c. length (mlkem_decaps cr sd c) = 32"
    and "establish_session cr t remote eph rnd id1 now1 = (t', res)"
    and "accept_session cr u kem enc id2 now2 = (u', res')"
  shows "(if length (pk_mlkem remote) = mlkem_ek_size cr \<and> mlkem_ek_valid cr (pk_mlkem remote)
      then (\<exists>enc0. res = Inr (length (tr_store t), enc0)) \<and> tr_sessions t' = tr_sessions t @ [length (tr_store t)]
        \<and> (\<exists>s. tr_store t' = tr_store t @ [s] \<and> session_id s = id1 \<and> send_nonce s = 0 \<and> recv_nonce s = 0)
      else res = Inl InvalidMlKemKey \<and> t' = t)
    \<and> (if length (enc_mlkem_ciphertext enc) = mlkem_ct_size cr
      then res' = Inr (length (tr_store u)) \<and> tr_sessions u' = tr_sessions u @ [length (tr_store u)]
        \<and> (\<exists>s. tr_store u' = tr_store u @ [s] \<and> session_id s = id2 \<and> send_nonce s = 0 \<and> recv_nonce s = 0)
      else res' = Inl InvalidMlKemKey \<and> u' = u)"
proof -
  obtain ct ss where e: "mlkem_encaps cr (pk_mlkem remote) rnd = (ct, ss)" by fastforce
  moreover have "length ss = 32" using assms(1)[of "pk_mlkem remote" rnd] unfolding e by simp
  ultimately show ?thesis
    using assms(2)[of "sk_mlkem_seed (local_secret kem)" "enc_mlkem_ciphertext enc"] assms(3,4)
    by (intro conjI; cases "length (enc_mlkem_ciphertext enc) = mlkem_ct_size cr")
      (auto simp: establish_session_def accept_session_def encapsulate_to_peer_def decapsulate_from_peer_def
        x25519_dh_real_def mlkem_encapsulate_def mlkem_decapsulate_def add_session_def pqc_session_new_def)
qed

definition sized_crypto :: crypto where
  "sized_crypto = toy_crypto\<lparr>mlkem_decaps := \<lambda>_ ct. take 32 (ct @ replicate 32 0)\<rparr>"

theorem handshake_outcome_witness:
  "\<exists>t' u' enc0. establish_session sized_crypto (transport_new 60) \<lparr>pk_x25519 = [], pk_mlkem = [9]\<rparr> [6] [7] 8 9
       = (t', Inr (0, enc0))
     \<and> accept_session sized_crypto (transport_new 60) (kem_generate sized_crypto [4] [5])
         \<lparr>enc_x25519_ephemeral = [], enc_mlkem_ciphertext = [1, 2]\<rparr> 0 0 = (u', Inl InvalidMlKemKey)"
proof -
  let ?kem = "kem_generate sized_crypto [4] [5]"
  let ?enc = "\<lparr>enc_x25519_ephemeral = [], enc_mlkem_ciphertext = [1, 2]\<rparr>"
  obtain t' res where e: "establish_session sized_crypto (transport_new 60) \<lparr>pk_x25519 = [], pk_mlkem = [9]\<rparr> [6] [7] 8 9
      = (t', res)" by fastforce
  obtain u' res' where a: "accept_session sized_crypto (transport_new 60) ?kem ?enc 0 0 = (u', res')" by fastforce
  have len: "length (snd (mlkem_encaps sized_crypto k r)) = 32" "length (mlkem_decaps sized_crypto sd c) = 32" for k r sd c
    by (simp_all add: sized_crypto_def toy_crypto_def Let_def)
  show ?thesis
    using handshake_outcome[OF len e a] e a by (auto simp: sized_crypto_def toy_crypto_def transport_new_def)
qed

text \<open>Nothing marks an encapsulation as used: whoever sends it again gets the accepting end to make
  another session with the same keys and counters at zero. It encrypts under (key, nonce) pairs that
  the first session has used, and accepts the frames sent over that one again.\<close>

lemma replayed_handshake:
  assumes "accept_session cr u kem enc id1 now1 = (u1, Inr p)" and "tr_store u1 ! p = s"
    and "length (tr_store v) = n" and "accept_session cr v kem enc id2 now2 = (v1, res)"
  shows "res = Inr n \<and> send_key (tr_store v1 ! n) = send_key s \<and> recv_key (tr_store v1 ! n) = recv_key s
    \<and> send_nonce (tr_store v1 ! n) = send_nonce s \<and> recv_nonce (tr_store v1 ! n) = recv_nonce s
    \<and> send_nonce s = 0 \<and> recv_nonce s = 0"
  using assms by (auto simp: accept_session_def add_session_def pqc_session_new_def Let_def split: sum.splits)

lemma toy_encrypt:
  "send_nonce s < 2 ^ 64 \<Longrightarrow> pqc_encrypt toy_crypto s m a now
     = (s\<lparr>send_nonce := send_nonce s + 1, last_activity := now\<rparr>, Inr (nonce_bytes (send_nonce s) @ a @ m))"
  by (simp add: pqc_encrypt_def toy_crypto_def)

text \<open>C34: Cleaning up with one clock reading forgets exactly the sessions that were idle longer than
  the timeout and returns their number. The sessions themselves and the timeout are untouched, so a
  caller that still holds a forgotten session encrypts and decrypts with it as before, and neither
  call ever tells it that the session expired.\<close>

theorem cleanup_expired_exact:
  assumes "cleanup_expired t (\<lambda>_. now) = (t', removed)"
  shows "tr_sessions t' = filter (\<lambda>r. unat now - unat (last_activity (tr_store t ! r)) \<le> unat (tr_timeout_nanos t))
        (tr_sessions t)
    \<and> session_count t' + removed = session_count t
    \<and> tr_store t' = tr_store t \<and> tr_timeout_nanos t' = tr_timeout_nanos t
    \<and> snd (encrypt_frame cr t' r f now') = snd (encrypt_frame cr t r f now')
    \<and> snd (decrypt_frame cr t' r ef now') = snd (decrypt_frame cr t r ef now')
    \<and> snd (encrypt_frame cr t' r f now') \<noteq> Inl SessionExpired
    \<and> snd (decrypt_frame cr t' r ef now') \<noteq> Inl SessionExpired"
proof -
  let ?kept = "filter (\<lambda>r. \<not> is_expired (tr_store t ! r) (tr_timeout_nanos t) now) (tr_sessions t)"
  have k: "map fst (filter (\<lambda>(r, i). P r) (zip xs ys)) = filter P xs"
    if "length ys = length xs" for P and xs :: "nat list" and ys :: "nat list"
    using that by (induction xs ys rule: list_induct2') auto
  have "t' = t\<lparr>tr_sessions := ?kept\<rparr>" "removed = usize_len (tr_sessions t) - usize_len ?kept"
    using assms k[of "[0..<length (tr_sessions t)]" "tr_sessions t"] by (auto simp: cleanup_expired_def Let_def)
  moreover have "snd (encrypt_frame cr t r f now') \<noteq> Inl SessionExpired"
      "snd (decrypt_frame cr t r ef now') \<noteq> Inl SessionExpired"
    by (simp_all add: encrypt_frame_def pqc_encrypt_def decrypt_frame_def pqc_decrypt_def split: prod.splits sum.splits)
  ultimately show ?thesis
    by (simp add: session_count_def is_expired_def unat_saturating_sub word_less_nat_alt not_less
        encrypt_frame_def decrypt_frame_def split: prod.splits)
qed

theorem cleanup_expired_exact_witness:
  "snd (cleanup_expired (fst toy_ends) (\<lambda>_. 60000000001)) = 1
   \<and> tr_sessions (fst (cleanup_expired (fst toy_ends) (\<lambda>_. 60000000001))) = []"
proof -
  obtain t' removed where c: "cleanup_expired (fst toy_ends) (\<lambda>_. 60000000001) = (t', removed)" by fastforce
  have k: "tr_sessions t' = []" "session_count t' + removed = session_count (fst toy_ends)"
    using cleanup_expired_exact[OF c, of toy_crypto 0 toy_frame 0] by (simp_all add: toy_simps)
  then have "removed = 1" by (simp add: toy_simps session_count_def usize_len_def)
  with k c show ?thesis by simp
qed

end
