(* ===== verification/Channel.thy ===== *)
theory Channel
  imports PqcTransport
begin

text \<open>
  The transport of \<^verbatim>\<open>crates/pqc-transport/src/lib.rs\<close> in use: a manager under any sequence of its
  operations, and two managers with a session in common over a network that an attacker controls.
  Both are step relations over the operations of \<open>PqcTransport\<close>; the callers' threads take the locks of
  the manager and of a session for a whole operation, so every interleaving of threads is a
  sequence of these steps.
\<close>

section \<open>One manager\<close>

text \<open>What an operation did: used a session in one direction, or something that uses none.\<close>

datatype manager_event = Encrypts nat | Decrypts nat | Manages

inductive manager_step :: "crypto \<Rightarrow> transport \<Rightarrow> manager_event \<Rightarrow> transport \<Rightarrow> bool" for cr where
  establish: "establish_session cr t remote eph rnd rand_id now = (t', res) \<Longrightarrow> manager_step cr t Manages t'"
| accept: "accept_session cr t kem enc rand_id now = (t', res) \<Longrightarrow> manager_step cr t Manages t'"
| cleanup: "cleanup_expired t clock = (t', removed) \<Longrightarrow> manager_step cr t Manages t'"
| encrypt: "r < length (tr_store t) \<Longrightarrow> encrypt_frame cr t r f now = (t', res)
    \<Longrightarrow> manager_step cr t (Encrypts r) t'"
| decrypt: "r < length (tr_store t) \<Longrightarrow> decrypt_frame cr t r ef now = (t', res)
    \<Longrightarrow> manager_step cr t (Decrypts r) t'"

inductive_cases manager_stepE: "manager_step cr t ev t'"
inductive_cases manages_stepE: "manager_step cr t Manages t'"
inductive_cases encrypts_stepE: "manager_step cr t (Encrypts r) t'"
inductive_cases decrypts_stepE: "manager_step cr t (Decrypts r) t'"

inductive manager_reach :: "crypto \<Rightarrow> transport \<Rightarrow> bool" for cr where
  new: "manager_reach cr (transport_new session_timeout_secs)"
| step: "manager_reach cr t \<Longrightarrow> manager_step cr t ev t' \<Longrightarrow> manager_reach cr t'"

lemma add_session_store:
  "add_session t s = (t', r) \<longleftrightarrow> r = length (tr_store t)
    \<and> t' = t\<lparr>tr_store := tr_store t @ [s], tr_sessions := tr_sessions t @ [length (tr_store t)]\<rparr>"
  by (auto simp: add_session_def)

text \<open>An operation that manages leaves the store alone, but for a new session at its end.\<close>

lemma manages_effect:
  assumes "manager_step cr t Manages t'"
  obtains (added) sk rk i now where "t' = fst (add_session t (pqc_session_new (sha256 cr sk) (sha256 cr rk) i now))"
  | (kept) P where "tr_store t' = tr_store t" "tr_sessions t' = map fst (filter P (zip (tr_sessions t) [0..<length (tr_sessions t)]))"
      "tr_timeout_nanos t' = tr_timeout_nanos t"
proof -
  have same: thesis if "t' = t"
    using that kept[of "\<lambda>_. True"] by simp
  have session: thesis if "add_session t (pqc_session_new (sha256 cr sk) (sha256 cr rk) i now) = (t', r)" for sk rk i now r
    using added[of sk rk i now] that by simp
  show thesis
    using assms
  proof (elim manages_stepE)
    fix remote eph rnd rand_id now res
    assume "establish_session cr t remote eph rnd rand_id now = (t', res)"
    then show thesis
      by (auto simp: establish_session_def Let_def split: sum.splits prod.splits intro: same session)
  next
    fix kem enc rand_id now res
    assume "accept_session cr t kem enc rand_id now = (t', res)"
    then show thesis
      by (auto simp: accept_session_def Let_def split: sum.splits prod.splits intro: same session)
  next
    fix clock removed
    assume "cleanup_expired t clock = (t', removed)"
    then show thesis by (intro kept) (auto simp: cleanup_expired_def Let_def)
  qed
qed

text \<open>An operation that uses a session replaces that one session.\<close>

lemma encrypts_effect:
  assumes "manager_step cr t (Encrypts r) t'"
  obtains s m a now res where "r < length (tr_store t)" "pqc_encrypt cr (tr_store t ! r) m a now = (s, res)"
    "t' = t\<lparr>tr_store := (tr_store t)[r := s]\<rparr>"
  using assms by (auto simp: encrypt_frame_def elim!: encrypts_stepE split: prod.splits)

lemma decrypts_effect:
  assumes "manager_step cr t (Decrypts r) t'"
  obtains s c a now res where "r < length (tr_store t)" "pqc_decrypt cr (tr_store t ! r) c a now = (s, res)"
    "t' = t\<lparr>tr_store := (tr_store t)[r := s]\<rparr>"
  using assms by (auto simp: decrypt_frame_def elim!: decrypts_stepE split: prod.splits)

text \<open>A direction of a session is touched by its own operation only.\<close>

lemma step_keeps_sending:
  assumes "manager_step cr t ev t'" and "ev \<noteq> Encrypts r" and "r < length (tr_store t)"
  shows "r < length (tr_store t') \<and> send_key (tr_store t' ! r) = send_key (tr_store t ! r)
    \<and> send_nonce (tr_store t' ! r) = send_nonce (tr_store t ! r)"
proof (cases ev)
  case (Encrypts i)
  then show ?thesis using assms by (auto elim: encrypts_effect)
next
  case (Decrypts i)
  then show ?thesis
    using assms receiving.other_keeps sending.other_keeps
    by (auto elim!: decrypts_effect simp: nth_list_update) (metis fst_conv)+
next
  case Manages
  then show ?thesis using assms by (auto elim!: manages_effect simp: add_session_def nth_append)
qed

lemma step_keeps_receiving:
  assumes "manager_step cr t ev t'" and "ev \<noteq> Decrypts q" and "q < length (tr_store t)"
  shows "q < length (tr_store t') \<and> recv_key (tr_store t' ! q) = recv_key (tr_store t ! q)
    \<and> recv_nonce (tr_store t' ! q) = recv_nonce (tr_store t ! q)"
proof (cases ev)
  case (Encrypts i)
  then show ?thesis
    using assms receiving.other_keeps
    by (auto elim!: encrypts_effect simp: nth_list_update) (metis fst_conv)+
next
  case (Decrypts i)
  then show ?thesis using assms by (auto elim: decrypts_effect)
next
  case Manages
  then show ?thesis using assms by (auto elim!: manages_effect simp: add_session_def nth_append)
qed

section \<open>The shape of a manager\<close>

definition session_ok :: "pqc_session \<Rightarrow> bool" where
  "session_ok s \<longleftrightarrow> length (send_key s) = 32 \<and> length (recv_key s) = 32
     \<and> send_nonce s \<le> 2 ^ 64 \<and> recv_nonce s \<le> 2 ^ 64"

definition manager_ok :: "transport \<Rightarrow> bool" where
  "manager_ok t \<longleftrightarrow> list_all session_ok (tr_store t) \<and> sorted_wrt (<) (tr_sessions t)
     \<and> list_all (\<lambda>r. r < length (tr_store t)) (tr_sessions t)"

lemma counter_bound:
  fixes n :: u128
  assumes "n < 2 ^ 64"
  shows "n + 1 \<le> 2 ^ 64"
  using assms by (simp add: inc_le)

lemma session_ok_encrypt:
  assumes "pqc_encrypt cr s m a now = (s', res)" and "session_ok s"
  shows "session_ok s'"
proof (cases res)
  case (Inl e)
  then show ?thesis using assms sending.failed by metis
next
  case (Inr c)
  note step = sending.succeeded[OF assms(1)[unfolded Inr]] counter_bound[of "send_nonce s"]
  then show ?thesis
    using assms by (auto simp: pqc_encrypt_def session_ok_def Inr split: if_splits sum.splits)
qed

lemma session_ok_decrypt:
  assumes "pqc_decrypt cr s c a now = (s', res)" and "session_ok s"
  shows "session_ok s'"
proof (cases res)
  case (Inl e)
  then show ?thesis using assms receiving.failed by metis
next
  case (Inr m)
  note step = receiving.succeeded[OF assms(1)[unfolded Inr]] counter_bound[of "recv_nonce s"]
  then show ?thesis
    using assms by (auto simp: pqc_decrypt_def session_ok_def Inr split: if_splits sum.splits)
qed

lemma manager_ok_update:
  "manager_ok t \<Longrightarrow> (r < length (tr_store t) \<Longrightarrow> session_ok s)
    \<Longrightarrow> manager_ok (t\<lparr>tr_store := (tr_store t)[r := s]\<rparr>)"
  by (cases "r < length (tr_store t)")
    (auto simp: manager_ok_def list_all_iff list_update_beyond dest: set_update_subset_insert[THEN subsetD])

lemma sorted_wrt_map_fst_filter:
  "sorted_wrt (<) (xs :: nat list) \<Longrightarrow> sorted_wrt (<) (map fst (filter P (zip xs ys)))"
proof (induction xs ys rule: list_induct2')
  case (4 x xs y ys)
  have "set (map fst (filter P (zip xs ys))) \<subseteq> set xs" by (auto dest: set_zip_leftD)
  then show ?case using 4 by (cases "P (x, y)") auto
qed simp_all

lemma manager_ok_step:
  assumes sha: "\<And>x. length (sha256 cr x) = 32" and ok: "manager_ok t" and step: "manager_step cr t ev t'"
  shows "manager_ok t'"
proof (cases ev)
  case (Encrypts r)
  from step[unfolded this] show ?thesis
  proof (cases rule: encrypts_effect)
    case (1 s m a now res)
    moreover have "session_ok (tr_store t ! r)" using ok 1(1) by (simp add: manager_ok_def list_all_length)
    ultimately show ?thesis using manager_ok_update[OF ok] session_ok_encrypt by simp
  qed
next
  case (Decrypts r)
  from step[unfolded this] show ?thesis
  proof (cases rule: decrypts_effect)
    case (1 s c a now res)
    moreover have "session_ok (tr_store t ! r)" using ok 1(1) by (simp add: manager_ok_def list_all_length)
    ultimately show ?thesis using manager_ok_update[OF ok] session_ok_decrypt by simp
  qed
next
  case Manages
  with step have "manager_step cr t Manages t'" by simp
  then show ?thesis
  proof (cases rule: manages_effect)
    case (added sk rk i now)
    then show ?thesis
      using ok sha by (auto simp: manager_ok_def add_session_def session_ok_def pqc_session_new_def
          sorted_wrt_append list_all_iff less_Suc_eq)
  next
    case (kept P)
    then show ?thesis
      using ok sorted_wrt_map_fst_filter[of "tr_sessions t"]
      by (auto simp: manager_ok_def list_all_iff dest!: set_zip_leftD)
  qed
qed

text \<open>C25: A manager keeps its shape under every sequence of its operations, by however many threads:
  each session ever made has keys of 32 bytes and counters of at most \<open>2 ^ 64\<close>, so that a nonce never
  wraps; and the manager lists existing sessions, each once, in the order they were made.\<close>

theorem manager_well_formed:
  assumes "\<And>x. length (sha256 cr x) = 32" and "manager_reach cr t"
  shows "list_all (\<lambda>s. length (send_key s) = 32 \<and> length (recv_key s) = 32
        \<and> send_nonce s \<le> 2 ^ 64 \<and> recv_nonce s \<le> 2 ^ 64) (tr_store t)
    \<and> sorted_wrt (<) (tr_sessions t) \<and> list_all (\<lambda>r. r < length (tr_store t)) (tr_sessions t)"
proof -
  have "manager_ok t"
    using assms(2)
  proof induction
    case (new secs)
    then show ?case by (simp add: manager_ok_def transport_new_def)
  next
    case (step t ev t')
    show ?case by (rule manager_ok_step[OF assms(1) step.IH step.hyps(2)])
  qed
  then show ?thesis unfolding manager_ok_def session_ok_def[abs_def] .
qed

definition toy_hashed :: crypto where
  "toy_hashed = toy_crypto\<lparr>sha256 := \<lambda>_. replicate 32 0\<rparr>"

lemma toy_hashed_kem: "kem_correct toy_hashed"
  using toy_kem by (simp add: kem_correct_def toy_hashed_def)

theorem manager_well_formed_witness:
  "\<exists>t r enc. establish_session toy_hashed (transport_new 60) (local_public (kem_generate toy_hashed [4] [5]))
     [6] [7] 8 9 = (t, Inr (r, enc)) \<and> length (send_key (tr_store t ! r)) = 32"
proof -
  obtain t r enc where t: "establish_session toy_hashed (transport_new 60)
      (local_public (kem_generate toy_hashed [4] [5])) [6] [7] 8 9 = (t, Inr (r, enc))" "r < length (tr_store t)"
    by (rule handshake[OF toy_hashed_kem refl, of "transport_new 60" "[4]" "[5]" "[6]" "[7]" 8 9 "transport_new 60" 0 0])
  have "manager_reach toy_hashed t"
    by (rule manager_reach.step[OF manager_reach.new manager_step.establish[OF t(1)]])
  moreover have "length (sha256 toy_hashed x) = 32" for x by (simp add: toy_hashed_def)
  ultimately show ?thesis
    using manager_well_formed[of toy_hashed t] t by (auto simp: list_all_length)
qed

section \<open>Frames over one direction of a session\<close>

text \<open>
  A frame operation of the manager lifts one direction of a session to the store: it feeds the frame
  to the session's operation and wraps what comes out. Both \<open>encrypt_frame\<close> and \<open>decrypt_frame\<close> do.
\<close>

locale frame_direction = nonce_discipline own other counter key primitive
  for own other :: session_op and counter :: "pqc_session \<Rightarrow> u128" and key :: "pqc_session \<Rightarrow> bytes"
    and primitive :: "bytes \<Rightarrow> bytes \<Rightarrow> bytes \<Rightarrow> bytes \<Rightarrow> string + bytes" +
  fixes frame_op :: "transport \<Rightarrow> nat \<Rightarrow> 'f \<Rightarrow> u64 \<Rightarrow> transport \<times> (pqc_error + 'o)"
    and input :: "'f \<Rightarrow> bytes" and ad :: "'f \<Rightarrow> bytes" and wrap :: "'f \<Rightarrow> bytes \<Rightarrow> 'o"
  assumes lifts: "frame_op t r f now =
    (case own (tr_store t ! r) (input f) (ad f) now of
       (s, res) \<Rightarrow> (t\<lparr>tr_store := (tr_store t)[r := s]\<rparr>, map_sum id (wrap f) res))"
begin

lemma refused: "frame_op t r f now = (t', Inl e) \<Longrightarrow> t' = t"
  by (auto simp: lifts split: prod.splits) (metis (no_types, lifting) failed map_sum_sel sum.disc sum.collapse
      list_update_id transport.surjective transport.update_convs(1) isl_map_sum)

lemma accepted:
  assumes "frame_op t r f now = (t', Inr out)" and "r < length (tr_store t)"
  shows "r < length (tr_store t') \<and> key (tr_store t' ! r) = key (tr_store t ! r)
    \<and> unat (counter (tr_store t' ! r)) = unat (counter (tr_store t ! r)) + 1
    \<and> unat (counter (tr_store t ! r)) < 2 ^ 64
    \<and> (\<exists>c. out = wrap f c
      \<and> primitive (key (tr_store t ! r)) (nonce_bytes (counter (tr_store t ! r))) (ad f) (input f) = Inr c)"
proof -
  obtain s x where e: "own (tr_store t ! r) (input f) (ad f) now = (s, x)" by fastforce
  then obtain c where x: "x = Inr c" using assms(1) by (cases x) (auto simp: lifts)
  then show ?thesis
    using e assms succeeded[OF e[unfolded x]] counter_step[OF e[unfolded x]] by (auto simp: lifts)
qed

end

interpretation sending_frames: frame_direction "pqc_encrypt cr" "pqc_decrypt cr" send_nonce send_key
    "aes_gcm_encrypt cr" "encrypt_frame cr" payload "\<lambda>f. le_bytes 8 (frame_id f)"
    "\<lambda>f c. \<lparr>ef_frame_id = frame_id f, ef_nonce = replicate 12 0, ef_ciphertext = c, ef_tag = replicate 16 0\<rparr>"
  for cr
  by unfold_locales (auto simp: encrypt_frame_def split: prod.splits sum.splits)

interpretation receiving_frames: frame_direction "pqc_decrypt cr" "pqc_encrypt cr" recv_nonce recv_key
    "aes_gcm_decrypt cr" "decrypt_frame cr" ef_ciphertext "\<lambda>ef. le_bytes 8 (ef_frame_id ef)" "\<lambda>_ m. m"
  for cr
  by unfold_locales (auto simp: decrypt_frame_def map_sum.id[unfolded id_def] id_def split: prod.splits)

section \<open>Two managers and an attacker\<close>

text \<open>
  The calls of AES-GCM that frame operations make, as the key, the nonce, the associated data and
  the ciphertext: key and nonce are those that the session holds when the call is made.
\<close>

type_synonym aead_call = "bytes \<times> bytes \<times> bytes \<times> bytes"

definition seal_call :: "transport \<Rightarrow> nat \<Rightarrow> telemetry_frame \<Rightarrow> encrypted_frame \<Rightarrow> aead_call" where
  "seal_call t r f ef = (send_key (tr_store t ! r), nonce_bytes (send_nonce (tr_store t ! r)),
     le_bytes 8 (frame_id f), ef_ciphertext ef)"

definition open_call :: "transport \<Rightarrow> nat \<Rightarrow> encrypted_frame \<Rightarrow> aead_call" where
  "open_call u q ef = (recv_key (tr_store u ! q), nonce_bytes (recv_nonce (tr_store u ! q)),
     le_bytes 8 (ef_frame_id ef), ef_ciphertext ef)"

text \<open>
  Integrity of AES-GCM, of one call to decrypt: if it succeeds, then its ciphertext was made by one
  of the given calls to encrypt, with the same key, nonce and associated data. This is asked of the
  calls that a run makes and of no others: it is the event that no forgery succeeds in the run,
  which a 128-bit tag makes overwhelmingly likely, whereas a statement about all conceivable nonces
  and associated data of a ciphertext would be false of the cipher.
\<close>

fun unforged :: "crypto \<Rightarrow> aead_call list \<Rightarrow> aead_call \<Rightarrow> bool" where
  "unforged cr seals (k, n, a, c) =
     (case aes_gcm_decrypt cr k n a c of Inl _ \<Rightarrow> True | Inr _ \<Rightarrow> (k, n, a, c) \<in> set seals)"

text \<open>
  The two managers, the frames that the near end sent over its session \<open>r\<close> with the calls that
  encrypted them, and the frames that the far end accepted on its session \<open>q\<close> with what it decrypted
  them to and the calls that did.
\<close>

record channel =
  near :: transport
  far :: transport
  sent :: "(telemetry_frame \<times> encrypted_frame) list"
  accepted :: "(encrypted_frame \<times> bytes) list"
  seal_log :: "aead_call list"
  open_log :: "aead_call list"

text \<open>
  The network is the attacker's: whatever frame it likes arrives at the far end, at any time. Both
  managers do anything else in between: other sessions, the opposite direction of this one,
  cleaning up.
\<close>

inductive channel_step :: "crypto \<Rightarrow> nat \<Rightarrow> nat \<Rightarrow> channel \<Rightarrow> channel \<Rightarrow> bool" for cr r q where
  send: "encrypt_frame cr (near c) r f now = (t', Inr ef)
    \<Longrightarrow> channel_step cr r q c (c\<lparr>near := t', sent := sent c @ [(f, ef)], seal_log := seal_log c @ [seal_call (near c) r f ef]\<rparr>)"
| send_fails: "encrypt_frame cr (near c) r f now = (t', Inl e) \<Longrightarrow> channel_step cr r q c (c\<lparr>near := t'\<rparr>)"
| accept: "decrypt_frame cr (far c) q ef now = (u', Inr m)
    \<Longrightarrow> channel_step cr r q c (c\<lparr>far := u', accepted := accepted c @ [(ef, m)], open_log := open_log c @ [open_call (far c) q ef]\<rparr>)"
| refuse: "decrypt_frame cr (far c) q ef now = (u', Inl e) \<Longrightarrow> channel_step cr r q c (c\<lparr>far := u'\<rparr>)"
| near_other: "manager_step cr (near c) ev t' \<Longrightarrow> ev \<noteq> Encrypts r \<Longrightarrow> channel_step cr r q c (c\<lparr>near := t'\<rparr>)"
| far_other: "manager_step cr (far c) ev u' \<Longrightarrow> ev \<noteq> Decrypts q \<Longrightarrow> channel_step cr r q c (c\<lparr>far := u'\<rparr>)"

inductive channel_reach :: "crypto \<Rightarrow> nat \<Rightarrow> nat \<Rightarrow> transport \<Rightarrow> transport \<Rightarrow> channel \<Rightarrow> bool" for cr r q t u where
  start: "channel_reach cr r q t u \<lparr>near = t, far = u, sent = [], accepted = [], seal_log = [], open_log = []\<rparr>"
| step: "channel_reach cr r q t u c \<Longrightarrow> channel_step cr r q c c' \<Longrightarrow> channel_reach cr r q t u c'"

text \<open>The two directions of the session start out at zero with the same key.\<close>

definition fresh_link :: "transport \<Rightarrow> nat \<Rightarrow> transport \<Rightarrow> nat \<Rightarrow> bool" where
  "fresh_link t r u q \<longleftrightarrow> r < length (tr_store t) \<and> q < length (tr_store u)
     \<and> send_key (tr_store t ! r) = recv_key (tr_store u ! q)
     \<and> send_nonce (tr_store t ! r) = 0 \<and> recv_nonce (tr_store u ! q) = 0"

text \<open>A handshake makes such a link in either direction.\<close>

lemma handshake_fresh:
  assumes "kem_correct cr" and "kem = kem_generate cr x25519_secret mlkem_seed"
    and "establish_session cr t (local_public kem) eph rnd id1 now1 = (t', Inr (r, enc))"
    and "accept_session cr u kem enc id2 now2 = (u', Inr q)"
  shows "fresh_link t' r u' q \<and> fresh_link u' q t' r"
proof -
  obtain t0 r0 enc0 u0 q0 where "establish_session cr t (local_public kem) eph rnd id1 now1 = (t0, Inr (r0, enc0))"
    "accept_session cr u kem enc0 id2 now2 = (u0, Inr q0)" "fresh_link t0 r0 u0 q0 \<and> fresh_link u0 q0 t0 r0"
    by (rule handshake[OF assms(1,2), of t eph rnd id1 now1 u id2 now2]) (auto simp: linked_def fresh_link_def)
  then show ?thesis using assms(3,4) by simp
qed

definition channel_inv :: "crypto \<Rightarrow> nat \<Rightarrow> nat \<Rightarrow> bytes \<Rightarrow> channel \<Rightarrow> bool" where
  "channel_inv cr r q k c \<longleftrightarrow> r < length (tr_store (near c)) \<and> q < length (tr_store (far c))
     \<and> send_key (tr_store (near c) ! r) = k \<and> recv_key (tr_store (far c) ! q) = k
     \<and> unat (send_nonce (tr_store (near c) ! r)) = length (sent c) \<and> length (sent c) \<le> 2 ^ 64
     \<and> unat (recv_nonce (tr_store (far c) ! q)) = length (accepted c) \<and> length (accepted c) \<le> 2 ^ 64
     \<and> seal_log c = map (\<lambda>(i, f, ef). (k, nonce_bytes (of_nat i), le_bytes 8 (frame_id f), ef_ciphertext ef))
          (enumerate 0 (sent c))
     \<and> open_log c = map (\<lambda>(i, ef, m). (k, nonce_bytes (of_nat i), le_bytes 8 (ef_frame_id ef), ef_ciphertext ef))
          (enumerate 0 (accepted c))
     \<and> (\<forall>i < length (sent c). case sent c ! i of (f, ef) \<Rightarrow> ef_frame_id ef = frame_id f
          \<and> aes_gcm_encrypt cr k (nonce_bytes (of_nat i)) (le_bytes 8 (frame_id f)) (payload f) = Inr (ef_ciphertext ef))
     \<and> (\<forall>i < length (accepted c). case accepted c ! i of (ef, m) \<Rightarrow>
          aes_gcm_decrypt cr k (nonce_bytes (of_nat i)) (le_bytes 8 (ef_frame_id ef)) (ef_ciphertext ef) = Inr m)"

lemma word_of_length: "unat (n :: u128) = l \<Longrightarrow> of_nat l = n"
  by auto

lemma channel_inv_step:
  assumes "channel_step cr r q c c'" and "channel_inv cr r q k c"
  shows "channel_inv cr r q k c'"
  using assms
proof (induction rule: channel_step.induct)
  case (send c f now t' ef)
  have n: "of_nat (length (sent c)) = send_nonce (tr_store (near c) ! r)"
    using send.prems by (intro word_of_length) (simp add: channel_inv_def)
  have "r < length (tr_store (near c))" using send.prems by (simp add: channel_inv_def)
  from sending_frames.accepted[OF send.hyps this] n send.prems show ?case
    by (auto simp: channel_inv_def nth_append less_Suc_eq enumerate_append_eq seal_call_def open_call_def)
next
  case (send_fails c f now t' e)
  then show ?case using sending_frames.refused[OF send_fails.hyps] by (simp add: channel_inv_def)
next
  case (accept c ef now u' m)
  have n: "of_nat (length (accepted c)) = recv_nonce (tr_store (far c) ! q)"
    using accept.prems by (intro word_of_length) (simp add: channel_inv_def)
  have "q < length (tr_store (far c))" using accept.prems by (simp add: channel_inv_def)
  from receiving_frames.accepted[OF accept.hyps this] n accept.prems show ?case
    by (auto simp: channel_inv_def nth_append less_Suc_eq enumerate_append_eq seal_call_def open_call_def)
next
  case (refuse c ef now u' e)
  then show ?case using receiving_frames.refused[OF refuse.hyps] by (simp add: channel_inv_def)
next
  case (near_other c ev t')
  then show ?case using step_keeps_sending[OF near_other.hyps] by (simp add: channel_inv_def)
next
  case (far_other c ev u')
  then show ?case using step_keeps_receiving[OF far_other.hyps] by (simp add: channel_inv_def)
qed

lemma channel_inv_reach:
  assumes "channel_reach cr r q t u c" and "fresh_link t r u q"
  shows "channel_inv cr r q (recv_key (tr_store u ! q)) c"
  using assms(1)
proof induction
  case start
  then show ?case using assms(2) by (simp add: channel_inv_def fresh_link_def)
next
  case (step c c')
  then show ?case using channel_inv_step by blast
qed

lemma nonce_of_nat_inject:
  assumes "nonce_bytes (of_nat i) = nonce_bytes (of_nat j)" and "i < 2 ^ 64" and "j < 2 ^ 64"
  shows "i = j"
proof -
  have u: "unat (of_nat i :: u128) = i" "unat (of_nat j :: u128) = j"
    using assms(2,3) by (simp_all add: unat_of_nat)
  then have "(of_nat i :: u128) = of_nat j"
    using assms by (intro nonce_bytes_inject) simp_all
  then show ?thesis using u by metis
qed

text \<open>A ciphertext of the run under the \<open>i\<close>th nonce is that of the \<open>i\<close>th frame, for no other has this nonce.\<close>

lemma sealed_nth:
  assumes inv: "channel_inv cr r q k c" and "i < 2 ^ 64"
    and "(l, nonce_bytes (of_nat i), le_bytes 8 (n :: u64), x) \<in> set (seal_log c)"
  shows "i < length (sent c) \<and> frame_id (fst (sent c ! i)) = n \<and> ef_ciphertext (snd (sent c ! i)) = x"
proof -
  obtain j f ef where j: "j < length (sent c)" "sent c ! j = (f, ef)" "nonce_bytes (of_nat i) = nonce_bytes (of_nat j)"
      "le_bytes 8 n = le_bytes 8 (frame_id f)" "x = ef_ciphertext ef"
    using assms by (auto simp: channel_inv_def in_set_conv_nth nth_enumerate_eq split: prod.splits)
  have "j < 2 ^ 64" using inv j(1) by (simp add: channel_inv_def)
  then have "i = j" using nonce_of_nat_inject[OF j(3) assms(2)] by simp
  moreover have "n = frame_id f"
    using le_bytes_inject[OF j(4)] unsigned_less[of n] unsigned_less[of "frame_id f"] by simp
  ultimately show ?thesis using j by simp
qed

lemma unforged_accepted_nth:
  assumes aead: "aead_correct cr" and inv: "channel_inv cr r q k c" and i: "i < length (accepted c)"
    and intact: "(k, nonce_bytes (of_nat i), le_bytes 8 (ef_frame_id (fst (accepted c ! i))),
      ef_ciphertext (fst (accepted c ! i))) \<in> set (seal_log c)"
    and short: "\<forall>(f, ef) \<in> set (sent c). length (payload f) \<le> 2 ^ 36"
  shows "i < length (sent c) \<and> ef_frame_id (fst (accepted c ! i)) = frame_id (fst (sent c ! i))
    \<and> snd (accepted c ! i) = payload (fst (sent c ! i))"
proof -
  obtain ef m where a: "accepted c ! i = (ef, m)" by fastforce
  have dec: "aes_gcm_decrypt cr k (nonce_bytes (of_nat i)) (le_bytes 8 (ef_frame_id ef)) (ef_ciphertext ef) = Inr m"
    using inv i a unfolding channel_inv_def by fastforce
  have "i < 2 ^ 64" using inv i by (simp add: channel_inv_def)
  from sealed_nth[OF inv this intact] a have n: "i < length (sent c)" "frame_id (fst (sent c ! i)) = ef_frame_id ef"
      "ef_ciphertext (snd (sent c ! i)) = ef_ciphertext ef" by simp_all
  then have "aes_gcm_encrypt cr k (nonce_bytes (of_nat i)) (le_bytes 8 (ef_frame_id ef)) (payload (fst (sent c ! i)))
      = Inr (ef_ciphertext ef)"
    using inv unfolding channel_inv_def by (metis (mono_tags, lifting) case_prod_beta)
  moreover have "length (payload (fst (sent c ! i))) \<le> 2 ^ 36"
    using short nth_mem[OF n(1)] by (auto simp: case_prod_beta')
  ultimately have "m = payload (fst (sent c ! i))"
    using aead dec unfolding aead_correct_def
    by (metis Inr_inject eight_le_limit length_le_bytes length_nonce_bytes)
  then show ?thesis using n a by simp
qed

text \<open>Each accepted frame was opened by its call, which succeeded.\<close>

lemma opened_nth:
  assumes "channel_inv cr r q k c" and "i < length (accepted c)" and "list_all (unforged cr seals) (open_log c)"
  shows "(k, nonce_bytes (of_nat i), le_bytes 8 (ef_frame_id (fst (accepted c ! i))),
    ef_ciphertext (fst (accepted c ! i))) \<in> set seals"
proof -
  obtain ef m where a: "accepted c ! i = (ef, m)" by fastforce
  have "aes_gcm_decrypt cr k (nonce_bytes (of_nat i)) (le_bytes 8 (ef_frame_id ef)) (ef_ciphertext ef) = Inr m"
    using assms(1,2) a unfolding channel_inv_def by fastforce
  moreover have "open_log c ! i = (k, nonce_bytes (of_nat i), le_bytes 8 (ef_frame_id ef), ef_ciphertext ef)"
      "i < length (open_log c)"
    using assms(1,2) a by (simp_all add: channel_inv_def nth_enumerate_eq)
  then have "unforged cr seals (k, nonce_bytes (of_nat i), le_bytes 8 (ef_frame_id ef), ef_ciphertext ef)"
    using assms(3) by (metis list_all_length)
  ultimately show ?thesis using a by simp
qed

lemma accepted_prefix:
  assumes "aead_correct cr" and "channel_inv cr r q k c"
    and "\<And>i. i < length (accepted c) \<Longrightarrow> (k, nonce_bytes (of_nat i), le_bytes 8 (ef_frame_id (fst (accepted c ! i))),
      ef_ciphertext (fst (accepted c ! i))) \<in> set (seal_log c)"
    and "\<forall>(f, ef) \<in> set (sent c). length (payload f) \<le> 2 ^ 36"
  shows "length (accepted c) \<le> length (sent c)
    \<and> map (\<lambda>(ef, m). (ef_frame_id ef, m)) (accepted c)
      = take (length (accepted c)) (map (\<lambda>(f, ef). (frame_id f, payload f)) (sent c))"
proof -
  have nth: "i < length (sent c) \<and> ef_frame_id (fst (accepted c ! i)) = frame_id (fst (sent c ! i))
      \<and> snd (accepted c ! i) = payload (fst (sent c ! i))" if "i < length (accepted c)" for i
    using unforged_accepted_nth[OF assms(1,2) that assms(3)[OF that] assms(4)] .
  then have "length (accepted c) \<le> length (sent c)" by (meson leI less_irrefl)
  then show ?thesis using nth by (intro conjI nth_equalityI) (auto simp: case_prod_beta')
qed

text \<open>
  A run of the toy instance: two frames are sent, the second arrives first and is refused, then the
  first arrives.
\<close>

definition toy_sealed :: "u128 \<Rightarrow> encrypted_frame" where
  "toy_sealed n = \<lparr>ef_frame_id = 3, ef_nonce = replicate 12 0,
     ef_ciphertext = nonce_bytes n @ le_bytes 8 (3 :: u64) @ [1, 2], ef_tag = replicate 16 0\<rparr>"

lemma toy_fresh: "fresh_link (fst toy_ends) 0 (snd toy_ends) 0"
  by (simp add: fresh_link_def toy_simps)

lemma toy_nonces: "nonce_bytes 1 \<noteq> nonce_bytes 0"
  using nonce_bytes_inject[of 1 0] by auto

lemma toy_send:
  "tr_store t = [s] \<Longrightarrow> send_nonce s < 2 ^ 64 \<Longrightarrow> encrypt_frame toy_crypto t 0 toy_frame now
    = (t\<lparr>tr_store := [s\<lparr>send_nonce := send_nonce s + 1, last_activity := now\<rparr>]\<rparr>, Inr (toy_sealed (send_nonce s)))"
  by (simp add: encrypt_frame_def toy_encrypt toy_frame_def toy_sealed_def)

lemma toy_receive:
  "decrypt_frame toy_crypto (snd toy_ends) 0 (toy_sealed 1) now = (snd toy_ends, Inl (DecryptionFailed ''aead::Error''))"
  "\<exists>u. decrypt_frame toy_crypto (snd toy_ends) 0 (toy_sealed 0) now = (u, Inr [1, 2])"
  using toy_nonces
  by (simp_all add: decrypt_frame_def pqc_decrypt_def toy_simps toy_sealed_def toy_crypto_def)

definition toy_call :: "u128 \<Rightarrow> aead_call" where
  "toy_call n = ([1], nonce_bytes n, le_bytes 8 (3 :: u64), ef_ciphertext (toy_sealed n))"

lemma toy_two_sent:
  "\<exists>t. channel_reach toy_crypto 0 0 (fst toy_ends) (snd toy_ends)
     \<lparr>near = t, far = snd toy_ends, sent = [(toy_frame, toy_sealed 0), (toy_frame, toy_sealed 1)], accepted = [],
      seal_log = [toy_call 0, toy_call 1], open_log = []\<rparr>"
proof -
  let ?r = "channel_reach toy_crypto 0 0 (fst toy_ends) (snd toy_ends)"
  obtain t1 where t1: "encrypt_frame toy_crypto (fst toy_ends) 0 toy_frame 1 = (t1, Inr (toy_sealed 0))"
      "tr_store t1 = [(pqc_session_new [1] [2] 5 0)\<lparr>send_nonce := 1, last_activity := 1\<rparr>]"
    using toy_send[of "fst toy_ends" "pqc_session_new [1] [2] 5 0" 1]
    by (simp add: toy_simps)
  obtain t2 where t2: "encrypt_frame toy_crypto t1 0 toy_frame 2 = (t2, Inr (toy_sealed 1))"
    using toy_send[OF t1(2), of 2] by simp
  have calls: "seal_call (fst toy_ends) 0 toy_frame (toy_sealed 0) = toy_call 0"
      "seal_call t1 0 toy_frame (toy_sealed 1) = toy_call 1"
    using t1(2) by (simp_all add: seal_call_def toy_call_def toy_simps toy_frame_def)
  have 1: "?r \<lparr>near = t1, far = snd toy_ends, sent = [(toy_frame, toy_sealed 0)], accepted = [],
      seal_log = [toy_call 0], open_log = []\<rparr>"
    using channel_reach.step[OF channel_reach.start channel_step.send] t1(1) calls(1) by fastforce
  then show ?thesis
    using channel_reach.step[OF 1 channel_step.send] t2 calls(2) by fastforce
qed

lemma toy_attack:
  "\<exists>t u. channel_reach toy_crypto 0 0 (fst toy_ends) (snd toy_ends)
     \<lparr>near = t, far = u, sent = [(toy_frame, toy_sealed 0), (toy_frame, toy_sealed 1)],
      accepted = [(toy_sealed 0, [1, 2])], seal_log = [toy_call 0, toy_call 1], open_log = [toy_call 0]\<rparr>"
proof -
  let ?r = "channel_reach toy_crypto 0 0 (fst toy_ends) (snd toy_ends)"
  obtain t where 2: "?r \<lparr>near = t, far = snd toy_ends, sent = [(toy_frame, toy_sealed 0), (toy_frame, toy_sealed 1)],
      accepted = [], seal_log = [toy_call 0, toy_call 1], open_log = []\<rparr>"
    using toy_two_sent by blast
  obtain u where u: "decrypt_frame toy_crypto (snd toy_ends) 0 (toy_sealed 0) 4 = (u, Inr [1, 2])"
    using toy_receive(2) by blast
  have call: "open_call (snd toy_ends) 0 (toy_sealed 0) = toy_call 0"
    by (simp add: open_call_def toy_call_def toy_simps toy_sealed_def)
  have 3: "?r \<lparr>near = t, far = snd toy_ends, sent = [(toy_frame, toy_sealed 0), (toy_frame, toy_sealed 1)],
      accepted = [], seal_log = [toy_call 0, toy_call 1], open_log = []\<rparr>"
    using channel_reach.step[OF 2 channel_step.refuse] toy_receive(1)[of 3] by fastforce
  show ?thesis
    using channel_reach.step[OF 3 channel_step.accept] u call by fastforce
qed

lemma unforgedI: "x \<in> set seals \<Longrightarrow> unforged cr seals x"
  by (cases x) (simp split: sum.splits)

section \<open>Refusing\<close>

text \<open>A sequence of frames that all fail to decrypt leaves the receiver as it was.\<close>

lemma receive_refused:
  assumes "length nows = length efs" and "recv_nonce (tr_store u ! q) < 2 ^ 64"
    and "list_all (\<lambda>ef. isl (aes_gcm_decrypt cr (recv_key (tr_store u ! q)) (nonce_bytes (recv_nonce (tr_store u ! q)))
      (le_bytes 8 (ef_frame_id ef)) (ef_ciphertext ef))) efs"
  shows "\<exists>errs. length errs = length efs
    \<and> receive_frames cr u q (zip efs nows) = (u, map (Inl \<circ> DecryptionFailed) errs)"
  using assms(1,3)
proof (induction nows efs rule: list_induct2)
  case (Cons now nows ef efs)
  then obtain errs where IH: "length errs = length efs"
    "receive_frames cr u q (zip efs nows) = (u, map (Inl \<circ> DecryptionFailed) errs)" by auto
  obtain e where "aes_gcm_decrypt cr (recv_key (tr_store u ! q)) (nonce_bytes (recv_nonce (tr_store u ! q)))
      (le_bytes 8 (ef_frame_id ef)) (ef_ciphertext ef) = Inl e"
    using Cons.prems by (auto simp: isl_def)
  then have "decrypt_frame cr u q ef now = (u, Inl (DecryptionFailed e))"
    using assms(2) by (simp add: decrypt_frame_def pqc_decrypt_def not_le[symmetric])
  then show ?case using IH by (intro exI[of _ "e # errs"]) simp
qed simp

text \<open>C14: One lost frame cuts the channel for good. Take a session's direction from its start, in any
  run, and the frame sent after as many as the receiver has accepted: unless that very frame arrives,
  every frame that does is refused, later ones of the sender as well as the attacker's, however many
  there are, and the receiver's state never changes, since a failed call counts nothing. Of AES-GCM
  this supposes integrity for the calls that are made: those that succeed have a ciphertext that
  the sender's end made in the run under the same key, nonce and associated data.\<close>

theorem lost_frame_desynchronises:
  assumes "channel_reach cr r q t u c" and "fresh_link t r u q"
    and "length (accepted c) < length (sent c)" and "sent c ! length (accepted c) = (f, lost)"
    and "list_all (\<lambda>ef. (ef_frame_id ef, ef_ciphertext ef) \<noteq> (ef_frame_id lost, ef_ciphertext lost)) efs"
    and "list_all (\<lambda>ef. unforged cr (seal_log c) (open_call (far c) q ef)) efs"
    and "length nows = length efs"
  shows "\<exists>errs. length errs = length efs
    \<and> receive_frames cr (far c) q (zip efs nows) = (far c, map (Inl \<circ> DecryptionFailed) errs)"
proof (rule receive_refused[OF assms(7)])
  let ?n = "length (accepted c)" and ?s = "tr_store (far c) ! q"
  note inv = channel_inv_reach[OF assms(1,2)]
  have n: "of_nat ?n = recv_nonce ?s" using inv by (intro word_of_length) (simp add: channel_inv_def)
  have less: "?n < 2 ^ 64" using inv assms(3) by (simp add: channel_inv_def)
  have "unat (recv_nonce ?s) = ?n" using inv by (simp add: channel_inv_def)
  then show "recv_nonce ?s < 2 ^ 64" using less by (simp add: word_less_nat_alt)
  have lost: "ef_frame_id lost = frame_id f"
    using inv assms(3,4) unfolding channel_inv_def by (metis (mono_tags, lifting) case_prod_conv)
  show "list_all (\<lambda>ef. isl (aes_gcm_decrypt cr (recv_key ?s) (nonce_bytes (recv_nonce ?s)) (le_bytes 8 (ef_frame_id ef))
      (ef_ciphertext ef))) efs"
    unfolding list_all_iff
  proof (intro ballI, rule ccontr)
    fix ef assume ef: "ef \<in> set efs"
      and "\<not> isl (aes_gcm_decrypt cr (recv_key ?s) (nonce_bytes (recv_nonce ?s)) (le_bytes 8 (ef_frame_id ef)) (ef_ciphertext ef))"
    then obtain m where "aes_gcm_decrypt cr (recv_key ?s) (nonce_bytes (recv_nonce ?s)) (le_bytes 8 (ef_frame_id ef))
        (ef_ciphertext ef) = Inr m" by (metis isl_def sum.exhaust)
    moreover have "unforged cr (seal_log c) (open_call (far c) q ef)" using assms(6) ef by (simp add: list_all_iff)
    ultimately have "(recv_key ?s, nonce_bytes (of_nat ?n), le_bytes 8 (ef_frame_id ef), ef_ciphertext ef)
        \<in> set (seal_log c)" by (simp add: open_call_def n)
    from sealed_nth[OF inv less this] show False
      using assms(4,5) ef lost by (auto simp: list_all_iff)
  qed
qed

theorem lost_frame_desynchronises_witness:
  "\<exists>e. receive_frames toy_crypto (snd toy_ends) 0 [(toy_sealed 1, 3)] = (snd toy_ends, [Inl (DecryptionFailed e)])"
proof -
  obtain t where c: "channel_reach toy_crypto 0 0 (fst toy_ends) (snd toy_ends)
      \<lparr>near = t, far = snd toy_ends, sent = [(toy_frame, toy_sealed 0), (toy_frame, toy_sealed 1)], accepted = [],
       seal_log = [toy_call 0, toy_call 1], open_log = []\<rparr>" using toy_two_sent by blast
  have "ef_ciphertext (toy_sealed 1) \<noteq> ef_ciphertext (toy_sealed 0)"
    using toy_nonces by (simp add: toy_sealed_def)
  moreover have "unforged toy_crypto seals (open_call (snd toy_ends) 0 (toy_sealed 1))" for seals
    using toy_nonces by (simp add: open_call_def toy_simps toy_sealed_def toy_crypto_def)
  ultimately show ?thesis
    using lost_frame_desynchronises[OF c toy_fresh, of toy_frame "toy_sealed 0" "[toy_sealed 1]" "[3]"]
    by (auto simp: length_Suc_conv)
qed

section \<open>Catching up\<close>

lemma receive_outstanding:
  assumes "aead_correct cr"
  shows "q < length (tr_store u) \<Longrightarrow> unat (recv_nonce (tr_store u ! q)) + length xs \<le> 2 ^ 64
    \<Longrightarrow> \<forall>i < length xs. case xs ! i of (f, ef) \<Rightarrow> ef_frame_id ef = frame_id f \<and> length (payload f) \<le> 2 ^ 36
      \<and> aes_gcm_encrypt cr (recv_key (tr_store u ! q)) (nonce_bytes (recv_nonce (tr_store u ! q) + of_nat i))
          (le_bytes 8 (frame_id f)) (payload f) = Inr (ef_ciphertext ef)
    \<Longrightarrow> length nows = length xs
    \<Longrightarrow> snd (receive_frames cr u q (zip (map snd xs) nows)) = map (Inr \<circ> payload \<circ> fst) xs"
proof (induction xs arbitrary: u nows)
  case (Cons x xs)
  obtain f ef where x: "x = (f, ef)" by (cases x)
  obtain now nows' where nows: "nows = now # nows'" "length nows' = length xs"
    using Cons.prems(4) by (cases nows) auto
  have e: "ef_frame_id ef = frame_id f" "length (payload f) \<le> 2 ^ 36"
      "aes_gcm_encrypt cr (recv_key (tr_store u ! q)) (nonce_bytes (recv_nonce (tr_store u ! q)))
        (le_bytes 8 (frame_id f)) (payload f) = Inr (ef_ciphertext ef)"
    using Cons.prems(3)[rule_format, of 0] x by simp_all
  have "aes_gcm_decrypt cr (recv_key (tr_store u ! q)) (nonce_bytes (recv_nonce (tr_store u ! q)))
      (le_bytes 8 (ef_frame_id ef)) (ef_ciphertext ef) = Inr (payload f)"
    using assms e unfolding aead_correct_def
    by (metis Inr_inject eight_le_limit length_le_bytes length_nonce_bytes)
  then obtain u' where u': "decrypt_frame cr u q ef now = (u', Inr (payload f))"
      "length (tr_store u') = length (tr_store u)" "recv_key (tr_store u' ! q) = recv_key (tr_store u ! q)"
      "recv_nonce (tr_store u' ! q) = recv_nonce (tr_store u ! q) + 1"
    using receive_frame_ok[OF Cons.prems(1), of cr ef "payload f" now] Cons.prems(2) by auto
  have "snd (receive_frames cr u' q (zip (map snd xs) nows')) = map (Inr \<circ> payload \<circ> fst) xs"
  proof (rule Cons.IH)
    show "\<forall>i < length xs. case xs ! i of (f, ef) \<Rightarrow> ef_frame_id ef = frame_id f \<and> length (payload f) \<le> 2 ^ 36
      \<and> aes_gcm_encrypt cr (recv_key (tr_store u' ! q)) (nonce_bytes (recv_nonce (tr_store u' ! q) + of_nat i))
          (le_bytes 8 (frame_id f)) (payload f) = Inr (ef_ciphertext ef)"
    proof (intro allI impI)
      fix i assume "i < length xs"
      with Cons.prems(3)[rule_format, of "Suc i"] u'(3,4)
      show "case xs ! i of (f, ef) \<Rightarrow> ef_frame_id ef = frame_id f \<and> length (payload f) \<le> 2 ^ 36
        \<and> aes_gcm_encrypt cr (recv_key (tr_store u' ! q)) (nonce_bytes (recv_nonce (tr_store u' ! q) + of_nat i))
          (le_bytes 8 (frame_id f)) (payload f) = Inr (ef_ciphertext ef)"
        by (simp add: add.assoc)
    qed
  qed (use Cons.prems u' nows in \<open>simp_all add: unat_add_no_wrap\<close>)
  then show ?case
    using u'(1) x nows by (cases "receive_frames cr u' q (zip (map snd xs) nows')") (simp add: comp_def)
qed simp

text \<open>C3: The far end can always catch up: however an attacker has dropped, delayed, repeated, reordered
  or forged the frames of a session's direction since its start, when the frames that the far end has
  not yet accepted arrive in the order of sending, it accepts them all and has received everything
  that was sent. This supposes payloads of at most \<open>2 ^ 36\<close> bytes, AES-GCM's limit, within which
  encryption succeeds and decryption inverts it (\<open>aead_correct\<close>), and integrity for the ciphertexts
  that the far end accepted in the run: the sender's end made them in it, under the same key, nonce
  and associated data, so that no forgery has succeeded.\<close>

theorem channel_catches_up:
  assumes "channel_reach cr r q t u c" and "fresh_link t r u q" and "aead_correct cr"
    and "list_all (unforged cr (seal_log c)) (open_log c)"
    and "\<forall>(f, ef) \<in> set (sent c). length (payload f) \<le> 2 ^ 36"
    and "outstanding = drop (length (accepted c)) (sent c)" and "length nows = length outstanding"
  shows "map (Inr \<circ> snd) (accepted c) @ snd (receive_frames cr (far c) q (zip (map snd outstanding) nows))
    = map (Inr \<circ> payload \<circ> fst) (sent c)"
proof -
  let ?n = "length (accepted c)"
  note inv = channel_inv_reach[OF assms(1,2)]
  note prefix = accepted_prefix[OF assms(3) inv opened_nth[OF inv _ assms(4)] assms(5)]
  have le: "?n \<le> length (sent c)" using prefix by simp
  have n: "of_nat ?n = recv_nonce (tr_store (far c) ! q)"
    using inv by (intro word_of_length) (simp add: channel_inv_def)
  have "snd (receive_frames cr (far c) q (zip (map snd outstanding) nows)) = map (Inr \<circ> payload \<circ> fst) outstanding"
  proof (rule receive_outstanding[OF assms(3)])
    show "\<forall>i < length outstanding. case outstanding ! i of (f, ef) \<Rightarrow> ef_frame_id ef = frame_id f
      \<and> length (payload f) \<le> 2 ^ 36
      \<and> aes_gcm_encrypt cr (recv_key (tr_store (far c) ! q)) (nonce_bytes (recv_nonce (tr_store (far c) ! q) + of_nat i))
          (le_bytes 8 (frame_id f)) (payload f) = Inr (ef_ciphertext ef)"
    proof (intro allI impI)
      fix i assume i: "i < length outstanding"
      then have "?n + i < length (sent c)" "outstanding ! i = sent c ! (?n + i)" by (simp_all add: assms(6))
      moreover have "sent c ! (?n + i) \<in> set (sent c)" using calculation(1) by (rule nth_mem)
      ultimately show "case outstanding ! i of (f, ef) \<Rightarrow> ef_frame_id ef = frame_id f \<and> length (payload f) \<le> 2 ^ 36
        \<and> aes_gcm_encrypt cr (recv_key (tr_store (far c) ! q)) (nonce_bytes (recv_nonce (tr_store (far c) ! q) + of_nat i))
          (le_bytes 8 (frame_id f)) (payload f) = Inr (ef_ciphertext ef)"
        using inv assms(5) unfolding channel_inv_def n[symmetric] by fastforce
    qed
  qed (use inv le assms(6,7) in \<open>simp_all add: channel_inv_def\<close>)
  moreover have "map snd (accepted c) = map (payload \<circ> fst) (take ?n (sent c))"
    using arg_cong[OF conjunct2[OF prefix], of "map snd"] by (simp add: take_map comp_def case_prod_beta')
  then have "map ((Inr :: bytes \<Rightarrow> pqc_error + bytes) \<circ> snd) (accepted c) = map (Inr \<circ> payload \<circ> fst) (take ?n (sent c))"
    by (metis (no_types, lifting) list.map_comp comp_assoc)
  ultimately show ?thesis
    unfolding assms(6) by (simp only: append_take_drop_id flip: map_append)
qed

theorem channel_catches_up_witness:
  "\<exists>u. snd (receive_frames toy_crypto u 0 [(toy_sealed 1, 9)]) = [Inr [1, 2]]"
proof -
  obtain t u where c: "channel_reach toy_crypto 0 0 (fst toy_ends) (snd toy_ends)
      \<lparr>near = t, far = u, sent = [(toy_frame, toy_sealed 0), (toy_frame, toy_sealed 1)],
       accepted = [(toy_sealed 0, [1, 2])], seal_log = [toy_call 0, toy_call 1], open_log = [toy_call 0]\<rparr>"
    using toy_attack by blast
  have "snd (receive_frames toy_crypto u 0 [(toy_sealed 1, 9)]) = [Inr [1, 2]]"
    using channel_catches_up[OF c toy_fresh toy_aead _ _ refl, of "[9]"]
    by (simp add: toy_frame_def unforgedI)
  then show ?thesis ..
qed

end
