(* ===== verification/Duplex.thy ===== *)
theory Duplex
  imports Channel
begin

text \<open>
  A session of \<^verbatim>\<open>crates/pqc-transport/src/lib.rs\<close> in both directions at once: the two managers of a
  handshake send to each other in any order over a network that an attacker controls, while each
  of them goes on using its other sessions. One direction of such a run is a run of theory
  \<open>Channel\<close>; the opposite one is too, with the ends exchanged. The ends
  encrypt under the two keys of the handshake, which keeps the two directions apart.
\<close>

section \<open>Runs\<close>

text \<open>
  The managers, and for each of them what it sent over the session and what it accepted there, with
  the calls of AES-GCM that encrypted and that decrypted these frames.
\<close>

record duplex =
  left_end :: transport
  right_end :: transport
  left_sent :: "(telemetry_frame \<times> encrypted_frame) list"
  left_got :: "(encrypted_frame \<times> bytes) list"
  left_seals :: "aead_call list"
  left_opens :: "aead_call list"
  right_sent :: "(telemetry_frame \<times> encrypted_frame) list"
  right_got :: "(encrypted_frame \<times> bytes) list"
  right_seals :: "aead_call list"
  right_opens :: "aead_call list"

inductive duplex_step :: "crypto \<Rightarrow> nat \<Rightarrow> nat \<Rightarrow> duplex \<Rightarrow> duplex \<Rightarrow> bool" for cr r q where
  left_sends: "encrypt_frame cr (left_end d) r f now = (t', Inr ef)
    \<Longrightarrow> duplex_step cr r q d (d\<lparr>left_end := t', left_sent := left_sent d @ [(f, ef)],
      left_seals := left_seals d @ [seal_call (left_end d) r f ef]\<rparr>)"
| left_gets: "decrypt_frame cr (left_end d) r ef now = (t', Inr m)
    \<Longrightarrow> duplex_step cr r q d (d\<lparr>left_end := t', left_got := left_got d @ [(ef, m)],
      left_opens := left_opens d @ [open_call (left_end d) r ef]\<rparr>)"
| left_send_fails: "encrypt_frame cr (left_end d) r f now = (t', Inl e)
    \<Longrightarrow> duplex_step cr r q d (d\<lparr>left_end := t'\<rparr>)"
| left_refuses: "decrypt_frame cr (left_end d) r ef now = (t', Inl e)
    \<Longrightarrow> duplex_step cr r q d (d\<lparr>left_end := t'\<rparr>)"
| left_other: "manager_step cr (left_end d) ev t' \<Longrightarrow> ev \<notin> {Encrypts r, Decrypts r}
    \<Longrightarrow> duplex_step cr r q d (d\<lparr>left_end := t'\<rparr>)"
| right_sends: "encrypt_frame cr (right_end d) q f now = (u', Inr ef)
    \<Longrightarrow> duplex_step cr r q d (d\<lparr>right_end := u', right_sent := right_sent d @ [(f, ef)],
      right_seals := right_seals d @ [seal_call (right_end d) q f ef]\<rparr>)"
| right_gets: "decrypt_frame cr (right_end d) q ef now = (u', Inr m)
    \<Longrightarrow> duplex_step cr r q d (d\<lparr>right_end := u', right_got := right_got d @ [(ef, m)],
      right_opens := right_opens d @ [open_call (right_end d) q ef]\<rparr>)"
| right_send_fails: "encrypt_frame cr (right_end d) q f now = (u', Inl e)
    \<Longrightarrow> duplex_step cr r q d (d\<lparr>right_end := u'\<rparr>)"
| right_refuses: "decrypt_frame cr (right_end d) q ef now = (u', Inl e)
    \<Longrightarrow> duplex_step cr r q d (d\<lparr>right_end := u'\<rparr>)"
| right_other: "manager_step cr (right_end d) ev u' \<Longrightarrow> ev \<notin> {Encrypts q, Decrypts q}
    \<Longrightarrow> duplex_step cr r q d (d\<lparr>right_end := u'\<rparr>)"

definition duplex_start :: "transport \<Rightarrow> transport \<Rightarrow> duplex" where
  "duplex_start t u = \<lparr>left_end = t, right_end = u, left_sent = [], left_got = [], left_seals = [], left_opens = [],
     right_sent = [], right_got = [], right_seals = [], right_opens = []\<rparr>"

inductive duplex_reach :: "crypto \<Rightarrow> nat \<Rightarrow> nat \<Rightarrow> transport \<Rightarrow> transport \<Rightarrow> duplex \<Rightarrow> bool" for cr r q t u where
  start: "duplex_reach cr r q t u (duplex_start t u)"
| step: "duplex_reach cr r q t u d \<Longrightarrow> duplex_step cr r q d d' \<Longrightarrow> duplex_reach cr r q t u d'"

section \<open>One direction\<close>

definition forward :: "duplex \<Rightarrow> channel" where
  "forward d = \<lparr>near = left_end d, far = right_end d, sent = left_sent d, accepted = right_got d,
     seal_log = left_seals d, open_log = right_opens d\<rparr>"

definition exchanged :: "duplex \<Rightarrow> duplex" where
  "exchanged d = \<lparr>left_end = right_end d, right_end = left_end d, left_sent = right_sent d,
     left_got = right_got d, left_seals = right_seals d, left_opens = right_opens d,
     right_sent = left_sent d, right_got = left_got d, right_seals = left_seals d, right_opens = left_opens d\<rparr>"

lemma forward_sel [simp]:
  "near (forward d) = left_end d" "far (forward d) = right_end d"
  "sent (forward d) = left_sent d" "accepted (forward d) = right_got d"
  "seal_log (forward d) = left_seals d" "open_log (forward d) = right_opens d"
  by (simp_all add: forward_def)

lemma exchanged_sel [simp]:
  "left_end (exchanged d) = right_end d" "right_end (exchanged d) = left_end d"
  "left_sent (exchanged d) = right_sent d" "left_got (exchanged d) = right_got d"
  "right_sent (exchanged d) = left_sent d" "right_got (exchanged d) = left_got d"
  "left_seals (exchanged d) = right_seals d" "left_opens (exchanged d) = right_opens d"
  "right_seals (exchanged d) = left_seals d" "right_opens (exchanged d) = left_opens d"
  by (simp_all add: exchanged_def)

lemma exchanged_update [simp]:
  "exchanged (d\<lparr>left_end := t\<rparr>) = (exchanged d)\<lparr>right_end := t\<rparr>"
  "exchanged (d\<lparr>right_end := t\<rparr>) = (exchanged d)\<lparr>left_end := t\<rparr>"
  "exchanged (d\<lparr>left_end := t, left_sent := s, left_seals := x\<rparr>)
    = (exchanged d)\<lparr>right_end := t, right_sent := s, right_seals := x\<rparr>"
  "exchanged (d\<lparr>left_end := t, left_got := g, left_opens := x\<rparr>)
    = (exchanged d)\<lparr>right_end := t, right_got := g, right_opens := x\<rparr>"
  "exchanged (d\<lparr>right_end := t, right_sent := s, right_seals := x\<rparr>)
    = (exchanged d)\<lparr>left_end := t, left_sent := s, left_seals := x\<rparr>"
  "exchanged (d\<lparr>right_end := t, right_got := g, right_opens := x\<rparr>)
    = (exchanged d)\<lparr>left_end := t, left_got := g, left_opens := x\<rparr>"
  by (simp_all add: exchanged_def)

lemma forward_update [simp]:
  "forward (d\<lparr>left_end := t\<rparr>) = (forward d)\<lparr>near := t\<rparr>"
  "forward (d\<lparr>right_end := t\<rparr>) = (forward d)\<lparr>far := t\<rparr>"
  "forward (d\<lparr>left_end := t, left_sent := s, left_seals := x\<rparr>)
    = (forward d)\<lparr>near := t, sent := s, seal_log := x\<rparr>"
  "forward (d\<lparr>left_end := t, left_got := g, left_opens := x\<rparr>) = (forward d)\<lparr>near := t\<rparr>"
  "forward (d\<lparr>right_end := t, right_sent := s, right_seals := x\<rparr>) = (forward d)\<lparr>far := t\<rparr>"
  "forward (d\<lparr>right_end := t, right_got := g, right_opens := x\<rparr>)
    = (forward d)\<lparr>far := t, accepted := g, open_log := x\<rparr>"
  by (simp_all add: forward_def)

lemmas exchanged_intros = duplex_step.intros[where d = "exchanged d" for d, unfolded exchanged_sel]
lemmas forward_intros = channel_step.intros[where c = "forward d" for d, unfolded forward_sel]

lemma exchanged_step: "duplex_step cr r q d d' \<Longrightarrow> duplex_step cr q r (exchanged d) (exchanged d')"
  by (induction rule: duplex_step.induct) (auto intro: exchanged_intros)

lemma exchanged_reach: "duplex_reach cr r q t u d \<Longrightarrow> duplex_reach cr q r u t (exchanged d)"
proof (induction rule: duplex_reach.induct)
  case start
  have "exchanged (duplex_start t u) = duplex_start u t" by (simp add: exchanged_def duplex_start_def)
  then show ?case using duplex_reach.start[of cr q r u t] by simp
next
  case (step d d')
  then show ?case using exchanged_step duplex_reach.step by blast
qed

text \<open>Every step of a run is a step of its forward direction.\<close>

lemma forward_step:
  assumes "duplex_step cr r q d d'" and "r < length (tr_store (left_end d))" and "q < length (tr_store (right_end d))"
  shows "channel_step cr r q (forward d) (forward d')"
  using assms
  by (induction rule: duplex_step.induct)
    (auto intro: forward_intros manager_step.encrypt manager_step.decrypt)

lemma forward_reach:
  assumes "duplex_reach cr r q t u d" and "fresh_link t r u q"
  shows "channel_reach cr r q t u (forward d)"
  using assms(1)
proof (induction rule: duplex_reach.induct)
  case start
  then show ?case using channel_reach.start[of cr r q t u] by (simp add: forward_def duplex_start_def)
next
  case (step d d')
  have "channel_inv cr r q (recv_key (tr_store u ! q)) (forward d)"
    by (rule channel_inv_reach[OF step.IH assms(2)])
  then have "channel_step cr r q (forward d) (forward d')"
    by (intro forward_step[OF step.hyps(2)]) (simp_all add: channel_inv_def)
  then show ?case by (rule channel_reach.step[OF step.IH])
qed

section \<open>Both directions\<close>

text \<open>The calls that an end makes in the session to encrypt are under its send key.\<close>

lemma seal_log_key:
  "channel_inv cr r q k c \<Longrightarrow> (l, n, a, x) \<in> set (seal_log c) \<Longrightarrow> l = k"
  by (auto simp: channel_inv_def)

text \<open>What arrives in one direction is what went out in it, when no end's frames open at that end.\<close>

lemma direction_intact:
  assumes "aead_correct cr" and inv: "channel_inv cr r q k c" and reverse: "channel_inv cr q r l b" and "k \<noteq> l"
    and "list_all (unforged cr seals) (open_log c)" and "set seals = set (seal_log c) \<union> set (seal_log b)"
    and "\<forall>(f, ef) \<in> set (sent c). length (payload f) \<le> 2 ^ 36"
  shows "map (\<lambda>(ef, m). (ef_frame_id ef, m)) (accepted c)
    = take (length (accepted c)) (map (\<lambda>(f, ef). (frame_id f, payload f)) (sent c))"
proof (rule conjunct2[OF accepted_prefix[OF assms(1) inv _ assms(7)]])
  fix i assume "i < length (accepted c)"
  from opened_nth[OF inv this assms(5)]
  show "(k, nonce_bytes (of_nat i), le_bytes 8 (ef_frame_id (fst (accepted c ! i))), ef_ciphertext (fst (accepted c ! i)))
      \<in> set (seal_log c)"
    using seal_log_key[OF reverse] assms(4,6) by blast
qed

text \<open>C2: A session under attack, in both directions: after a handshake, whatever an attacker does to the
  frames of either direction - drops, delays, repeats, reorders or alters them, makes up others, or
  sends an end's frames back to it - and whatever else the two managers do meanwhile, each end has
  accepted the first frames that the other one sent, with their numbers and payloads, in order and
  without a gap. The primitives are supposed to be correct (\<open>kem_correct\<close>, and \<open>aead_correct\<close> for
  payloads of at most \<open>2 ^ 36\<close> bytes), and two things to hold of this run: the session's two keys
  differ, which they do by the labels \<^verbatim>\<open>SEND\<close> and \<^verbatim>\<open>RECV\<close> unless SHA-256 has a collision there, and
  integrity of AES-GCM for the calls that are made: a ciphertext that an end accepted in the session
  was made in it by one of the two ends, under the same key, nonce and associated data. So
  no forgery succeeds, and nothing is accepted that another session with the same keys encrypted.\<close>

theorem session_intact_under_attack:
  assumes "kem_correct cr" and "aead_correct cr" and "kem = kem_generate cr x25519_secret mlkem_seed"
    and "establish_session cr t (local_public kem) eph rnd id1 now1 = (t', Inr (r, enc))"
    and "accept_session cr u kem enc id2 now2 = (u', Inr q)"
    and "send_key (tr_store t' ! r) \<noteq> recv_key (tr_store t' ! r)"
    and "duplex_reach cr r q t' u' d"
    and "list_all (unforged cr (left_seals d @ right_seals d)) (left_opens d @ right_opens d)"
    and "\<forall>(f, ef) \<in> set (left_sent d @ right_sent d). length (payload f) \<le> 2 ^ 36"
  shows "map (\<lambda>(ef, m). (ef_frame_id ef, m)) (right_got d)
      = take (length (right_got d)) (map (\<lambda>(f, ef). (frame_id f, payload f)) (left_sent d))
    \<and> map (\<lambda>(ef, m). (ef_frame_id ef, m)) (left_got d)
      = take (length (left_got d)) (map (\<lambda>(f, ef). (frame_id f, payload f)) (right_sent d))"
proof -
  have fresh: "fresh_link t' r u' q" "fresh_link u' q t' r"
    using handshake_fresh[OF assms(1,3-5)] by simp_all
  note inv = channel_inv_reach[OF forward_reach[OF assms(7) fresh(1)] fresh(1)]
    channel_inv_reach[OF forward_reach[OF exchanged_reach[OF assms(7)] fresh(2)] fresh(2)]
  have keys: "recv_key (tr_store u' ! q) \<noteq> recv_key (tr_store t' ! r)"
    using assms(6) fresh by (simp add: fresh_link_def)
  show ?thesis
    using direction_intact[OF assms(2) inv keys, of "left_seals d @ right_seals d"]
      direction_intact[OF assms(2) inv(2,1) keys[symmetric], of "left_seals d @ right_seals d"] assms(8,9)
    by (auto simp: Un_commute)
qed

text \<open>A run of the toy instance after a handshake: one frame goes from the left to the right end.\<close>

lemma toy_session:
  assumes "r < length (tr_store t)" "q < length (tr_store u)" "linked (tr_store t ! r) (tr_store u ! q)"
    and "send_nonce (tr_store t ! r) = 0"
  shows "\<exists>d. duplex_reach toy_crypto r q t u d \<and> left_sent d = [(toy_frame, toy_sealed 0)] \<and> right_sent d = []
    \<and> right_got d = [(toy_sealed 0, [1, 2])]
    \<and> list_all (unforged toy_crypto (left_seals d @ right_seals d)) (left_opens d @ right_opens d)"
proof -
  obtain t1 where t1: "encrypt_frame toy_crypto t r toy_frame 1 = (t1, Inr (toy_sealed 0))"
    using assms(4) by (simp add: encrypt_frame_def toy_encrypt toy_frame_def toy_sealed_def)
  have "recv_nonce (tr_store u ! q) = 0" using assms(3,4) by (simp add: linked_def)
  then obtain u1 where u1: "decrypt_frame toy_crypto u q (toy_sealed 0) 2 = (u1, Inr [1, 2])"
    by (simp add: decrypt_frame_def pqc_decrypt_def toy_sealed_def toy_crypto_def)
  have call: "open_call u q (toy_sealed 0) = seal_call t r toy_frame (toy_sealed 0)"
    using assms(3) by (simp add: open_call_def seal_call_def linked_def toy_sealed_def toy_frame_def)
  let ?d = "(duplex_start t u)\<lparr>left_end := t1, left_sent := [(toy_frame, toy_sealed 0)],
    left_seals := [seal_call t r toy_frame (toy_sealed 0)]\<rparr>"
  let ?e = "?d\<lparr>right_end := u1, right_got := right_got ?d @ [(toy_sealed 0, [1, 2])],
    right_opens := right_opens ?d @ [open_call (right_end ?d) q (toy_sealed 0)]\<rparr>"
  have "duplex_reach toy_crypto r q t u ?d"
    using duplex_reach.step[OF duplex_reach.start duplex_step.left_sends] t1 by (fastforce simp: duplex_start_def)
  moreover have "duplex_step toy_crypto r q ?d ?e"
    using u1 by (intro duplex_step.right_gets) (simp add: duplex_start_def)
  ultimately have "duplex_reach toy_crypto r q t u ?e"
    by (rule duplex_reach.step)
  then show ?thesis
    by (intro exI conjI) (assumption, simp_all add: duplex_start_def call unforgedI)
qed

lemma toy_labels:
  assumes "establish_session toy_crypto t remote eph rnd id1 now1 = (t', Inr (r, enc))"
  shows "send_key (tr_store t' ! r) \<noteq> recv_key (tr_store t' ! r)"
  using assms
  by (auto simp: establish_session_def add_session_def pqc_session_new_def Let_def toy_crypto_def
      key_material_def as_bytes_def split: sum.splits prod.splits)

theorem session_intact_under_attack_witness:
  "\<exists>t' r enc u' q d. establish_session toy_crypto (transport_new 60) (local_public (kem_generate toy_crypto [4] [5]))
       [6] [7] 8 9 = (t', Inr (r, enc))
     \<and> accept_session toy_crypto (transport_new 60) (kem_generate toy_crypto [4] [5]) enc 0 0 = (u', Inr q)
     \<and> duplex_reach toy_crypto r q t' u' d \<and> map (\<lambda>(ef, m). (ef_frame_id ef, m)) (right_got d) = [(3, [1, 2])]"
proof -
  obtain t' r enc u' q where h: "establish_session toy_crypto (transport_new 60)
      (local_public (kem_generate toy_crypto [4] [5])) [6] [7] 8 9 = (t', Inr (r, enc))"
      "accept_session toy_crypto (transport_new 60) (kem_generate toy_crypto [4] [5]) enc 0 0 = (u', Inr q)"
      "linked (tr_store t' ! r) (tr_store u' ! q)" "r < length (tr_store t')" "q < length (tr_store u')"
      "send_nonce (tr_store t' ! r) = 0"
    by (rule handshake[OF toy_kem refl, of "transport_new 60" "[4]" "[5]" "[6]" "[7]" 8 9 "transport_new 60" 0 0])
  obtain d where d: "duplex_reach toy_crypto r q t' u' d" "left_sent d = [(toy_frame, toy_sealed 0)]" "right_sent d = []"
      "right_got d = [(toy_sealed 0, [1, 2])]"
      "list_all (unforged toy_crypto (left_seals d @ right_seals d)) (left_opens d @ right_opens d)"
    using toy_session[OF h(4,5,3,6)] by blast
  then have "map (\<lambda>(ef, m). (ef_frame_id ef, m)) (right_got d) = [(3, [1, 2])]"
    using session_intact_under_attack[OF toy_kem toy_aead refl h(1,2) toy_labels[OF h(1)] d(1,5)]
    by (simp add: toy_frame_def)
  with h(1,2) d(1) show ?thesis by (intro exI conjI)
qed

end
