(* ===== verification/TeeGateway.thy ===== *)
theory TeeGateway
  imports Common "HOL-Library.Mapping"
begin

text \<open>
  The TEE gateway (\<^verbatim>\<open>crates/tee-gateway/src/lib.rs\<close> and \<^verbatim>\<open>main.rs\<close>): the sealing backends, the
  sealed storage with its attestation gate, the relay of frames to the Qwen API with its statistics,
  the execution log, and the flow of the binary. SHA-256, the HTTP client and the JSON parser are
  third-party code: \<open>sha256\<close>, the response of one request and the accessors of \<open>json_api\<close> are
  parameters. The asynchronous call is modelled at its await points by the outcome it delivers.
\<close>

section \<open>Errors and backends\<close>

datatype gateway_error =
    SealingFailed string
  | UnsealingFailed string
  | AttestationFailed
  | ApiKeyNotInitialized
  | QwenApiError string
  | HttpError string
  | GatewayIo string

fun show_gateway_error :: "gateway_error \<Rightarrow> string" where
  "show_gateway_error (SealingFailed s) = ''Sealing failed: '' @ s"
| "show_gateway_error (UnsealingFailed s) = ''Unsealing failed: '' @ s"
| "show_gateway_error AttestationFailed = ''Attestation failed''"
| "show_gateway_error ApiKeyNotInitialized = ''API key not initialized''"
| "show_gateway_error (QwenApiError s) = ''Qwen API error: '' @ s"
| "show_gateway_error (HttpError s) = ''HTTP error: '' @ s"
| "show_gateway_error (GatewayIo s) = ''IO error: '' @ s"

record attestation_report =
  quote :: bytes
  measurement :: bytes

text \<open>The trait \<^verbatim>\<open>TeeBackend\<close>: its three methods.\<close>

record tee_backend =
  tee_seal :: "bytes \<Rightarrow> gateway_error + bytes"
  tee_unseal :: "bytes \<Rightarrow> gateway_error + bytes"
  tee_attest :: "gateway_error + attestation_report"

text \<open>\<^verbatim>\<open>SimulatedTee\<close>: its key, the loop both of its directions run, and its trait methods.\<close>

record simulated_tee_state =
  encryption_key :: bytes

definition simulated_tee_new :: simulated_tee_state where
  "simulated_tee_new = \<lparr>encryption_key = map (\<lambda>i. of_nat (i * 7 + 13)) [0..<32]\<rparr>"

definition simulated_tee_default :: simulated_tee_state where
  "simulated_tee_default = simulated_tee_new"

definition xor_with_key :: "bytes \<Rightarrow> bytes \<Rightarrow> bytes" where
  "xor_with_key key bs = map (\<lambda>(i, byte). xor byte (key ! (i mod 32))) (zip [0..<length bs] bs)"

definition simulated_tee_methods :: "(bytes \<Rightarrow> bytes) \<Rightarrow> simulated_tee_state \<Rightarrow> tee_backend" where
  "simulated_tee_methods sha256 tee =
     \<lparr>tee_seal = (\<lambda>plaintext. Inr (xor_with_key (encryption_key tee) plaintext)),
      tee_unseal = (\<lambda>sealed. Inr (xor_with_key (encryption_key tee) sealed)),
      tee_attest = Inr \<lparr>quote = as_bytes ''simulated-tee-quote-v1'',
                        measurement = sha256 (as_bytes ''simulated-tee-measurement'')\<rparr>\<rparr>"

definition simulated_tee :: "(bytes \<Rightarrow> bytes) \<Rightarrow> tee_backend" where
  "simulated_tee sha256 = simulated_tee_methods sha256 simulated_tee_new"

section \<open>Sealed storage\<close>

record sealed_storage =
  st_tee :: tee_backend
  sealed_data :: bytes
  attested :: bool

definition storage_new :: "tee_backend \<Rightarrow> sealed_storage" where
  "storage_new tee = \<lparr>st_tee = tee, sealed_data = [], attested = False\<rparr>"

definition storage_seal :: "sealed_storage \<Rightarrow> bytes \<Rightarrow> sealed_storage \<times> (gateway_error + unit)" where
  "storage_seal st plaintext =
     (case tee_seal (st_tee st) plaintext of
        Inl e \<Rightarrow> (st, Inl e)
      | Inr sealed \<Rightarrow> (st\<lparr>sealed_data := sealed\<rparr>, Inr ()))"

definition storage_unseal :: "sealed_storage \<Rightarrow> gateway_error + bytes" where
  "storage_unseal st =
     (if \<not> attested st then Inl AttestationFailed
      else if sealed_data st = [] then Inl (UnsealingFailed ''No sealed data available'')
      else tee_unseal (st_tee st) (sealed_data st))"

definition verify_attestation :: "sealed_storage
    \<Rightarrow> sealed_storage \<times> (gateway_error + attestation_report)" where
  "verify_attestation st =
     (case tee_attest (st_tee st) of
        Inl e \<Rightarrow> (st, Inl e)
      | Inr report \<Rightarrow> (st\<lparr>attested := True\<rparr>, Inr report))"

definition is_attested :: "sealed_storage \<Rightarrow> bool" where
  "is_attested st = attested st"

section \<open>Responses, sessions, the gateway\<close>

record qwen_message =
  role :: string
  content :: string

record qwen_choice =
  index :: usize
  message :: qwen_message
  finish_reason :: string

record qwen_usage =
  prompt_tokens :: usize
  completion_tokens :: usize
  total_tokens :: usize

record qwen_response =
  request_id :: string
  model :: string
  choices :: "qwen_choice list"
  usage :: qwen_usage

record session_state =
  ss_last_activity :: u64
  frame_count :: u64

record gateway_stats =
  gs_processed_frames :: u64
  active_sessions :: usize
  api_calls :: u64

record tee_gateway =
  gw_storage :: sealed_storage
  qwen_api_key :: "string option"
  qwen_endpoint :: string
  qwen_model :: string
  live :: bool
  processed_frames :: u64
  session_cache :: "(string, session_state) mapping"
  http_client :: bool

definition newline :: string where
  "newline = [CHR 0x0A]"

definition SYSTEM_PROMPT :: string where
  "SYSTEM_PROMPT = ''You are an AI agent analyzing real-time edge telemetry.'' @ newline
     @ ''Your task is to provide actionable insights and decisions based on sensor data.'' @ newline
     @ ''Respond with structured JSON containing: action, confidence, reasoning.''"

definition DASHSCOPE_INTL_ENDPOINT :: string where
  "DASHSCOPE_INTL_ENDPOINT = ''https://dashscope-intl.aliyuncs.com/compatible-mode/v1''"

definition gateway_new :: "tee_backend \<Rightarrow> string \<Rightarrow> tee_gateway" where
  "gateway_new tee endpoint =
     \<lparr>gw_storage = storage_new tee, qwen_api_key = None, qwen_endpoint = endpoint,
      qwen_model = ''qwen-max'', live = False, processed_frames = 0,
      session_cache = Mapping.empty, http_client = False\<rparr>"

definition gateway_new_live :: "tee_backend \<Rightarrow> string \<Rightarrow> string \<Rightarrow> tee_gateway" where
  "gateway_new_live tee endpoint mdl = (gateway_new tee endpoint)\<lparr>qwen_model := mdl, live := True\<rparr>"

text \<open>
  Initialisation stops at the first error. \<open>client_builds\<close> says whether the HTTP client can be built;
  if not, \<^verbatim>\<open>expect\<close> panics.
\<close>

definition gateway_initialize :: "bool \<Rightarrow> tee_gateway \<Rightarrow> bytes
    \<Rightarrow> panic + tee_gateway \<times> (gateway_error + unit)" where
  "gateway_initialize client_builds gw api_token =
     (case verify_attestation (gw_storage gw) of
        (st1, Inl e) \<Rightarrow> Inr (gw\<lparr>gw_storage := st1\<rparr>, Inl e)
      | (st1, Inr _) \<Rightarrow>
          (case storage_seal st1 api_token of
             (st2, Inl e) \<Rightarrow> Inr (gw\<lparr>gw_storage := st2\<rparr>, Inl e)
           | (st2, Inr _) \<Rightarrow>
               if \<not> client_builds then Inl Unwrap_On_Error
               else Inr (gw\<lparr>gw_storage := st2, qwen_api_key := Some (from_utf8_lossy api_token),
                           http_client := True\<rparr>, Inr ())))"

section \<open>Calling the API\<close>

text \<open>The request the gateway posts, and what comes back: a transport error, or a status and a body.\<close>

record qwen_request =
  rq_url :: string
  rq_bearer :: string
  rq_model :: string
  rq_messages :: "(string \<times> string) list"

record http_reply =
  status_success :: bool
  status_text :: string
  body_text :: "string + string"

text \<open>The accessors of \<^verbatim>\<open>serde_json::Value\<close> that the gateway uses.\<close>

record 'v json_api =
  json_from_str :: "string \<Rightarrow> string + 'v"
  json_get :: "'v \<Rightarrow> string \<Rightarrow> 'v"
  json_array :: "'v \<Rightarrow> 'v list option"
  json_str :: "'v \<Rightarrow> string option"
  json_u64 :: "'v \<Rightarrow> u64 option"

fun unwrap_or :: "'a option \<Rightarrow> 'a \<Rightarrow> 'a" where
  "unwrap_or None d = d"
| "unwrap_or (Some x) d = x"

definition parse_choice :: "'v json_api \<Rightarrow> nat \<Rightarrow> 'v \<Rightarrow> qwen_choice" where
  "parse_choice js i c =
     \<lparr>index = of_nat i,
      message = \<lparr>role = unwrap_or (json_str js (json_get js (json_get js c ''message'') ''role'')) ''assistant'',
                 content = unwrap_or (json_str js (json_get js (json_get js c ''message'') ''content'')) ''''\<rparr>,
      finish_reason = unwrap_or (json_str js (json_get js c ''finish_reason'')) ''stop''\<rparr>"

definition parse_choices :: "'v json_api \<Rightarrow> 'v \<Rightarrow> qwen_choice list" where
  "parse_choices js v =
     (case json_array js (json_get js v ''choices'') of
        None \<Rightarrow> []
      | Some arr \<Rightarrow> map (\<lambda>(i, c). parse_choice js i c) (zip [0..<length arr] arr))"

definition usage_field :: "'v json_api \<Rightarrow> 'v \<Rightarrow> string \<Rightarrow> usize" where
  "usage_field js v k = unwrap_or (json_u64 js (json_get js (json_get js v ''usage'') k)) 0"

definition parse_response :: "'v json_api \<Rightarrow> string \<Rightarrow> string \<Rightarrow> gateway_error + qwen_response" where
  "parse_response js default_model txt =
     (case json_from_str js txt of
        Inl e \<Rightarrow> Inl (QwenApiError (''bad JSON: '' @ e))
      | Inr v \<Rightarrow>
          (let chs = parse_choices js v
           in if chs = [] then Inl (QwenApiError ''response contained no choices'')
              else Inr \<lparr>request_id = unwrap_or (json_str js (json_get js v ''id'')) ''unknown'',
                        model = unwrap_or (json_str js (json_get js v ''model'')) default_model,
                        choices = chs,
                        usage = \<lparr>prompt_tokens = usage_field js v ''prompt_tokens'',
                                 completion_tokens = usage_field js v ''completion_tokens'',
                                 total_tokens = usage_field js v ''total_tokens''\<rparr>\<rparr>))"

definition simulated_content :: string where
  \<open>simulated_content = ''{"action": "MAINTAIN_COURSE", "confidence": 0.92, "reasoning": "Sensor readings nominal"}''\<close>

definition simulated_response :: "tee_gateway \<Rightarrow> string \<Rightarrow> qwen_response" where
  "simulated_response gw prompt =
     \<lparr>request_id = ''tee-req-'' @ show_word (processed_frames gw),
      model = qwen_model gw,
      choices = [\<lparr>index = 0, message = \<lparr>role = ''assistant'', content = simulated_content\<rparr>,
                  finish_reason = ''stop''\<rparr>],
      usage = \<lparr>prompt_tokens = usize_len prompt div 4, completion_tokens = 50,
               total_tokens = usize_len prompt div 4 + 50\<rparr>\<rparr>"

definition qwen_call :: "tee_gateway \<Rightarrow> string \<Rightarrow> string \<Rightarrow> qwen_request" where
  "qwen_call gw api_key prompt =
     \<lparr>rq_url = trim_end_char (CHR ''/'') (qwen_endpoint gw) @ ''/chat/completions'',
      rq_bearer = api_key, rq_model = qwen_model gw, rq_messages = [(''user'', prompt)]\<rparr>"

text \<open>
  The result, and the requests posted on the way to it. A request counts as posted when the code
  hands it to the HTTP client: \<open>post\<close> is all that the client does with it, from building it to the
  last byte of the headers of the answer, and its error is also what comes back when the client
  cannot build the request - from an endpoint that is no URL, say - so that nothing is sent.
\<close>

definition call_qwen_api :: "'v json_api \<Rightarrow> (qwen_request \<Rightarrow> string + http_reply) \<Rightarrow> tee_gateway
    \<Rightarrow> string \<Rightarrow> qwen_request list \<times> (gateway_error + qwen_response)" where
  "call_qwen_api js post gw prompt =
     (case qwen_api_key gw of
        None \<Rightarrow> ([], Inl ApiKeyNotInitialized)
      | Some api_key \<Rightarrow>
          if live gw then
            if \<not> http_client gw then ([], Inl (QwenApiError ''HTTP client not initialized''))
            else let rq = qwen_call gw api_key prompt in ([rq],
              (case post rq of
                 Inl e \<Rightarrow> Inl (QwenApiError (''request failed: '' @ e))
               | Inr resp \<Rightarrow>
                   (case body_text resp of
                      Inl e \<Rightarrow> Inl (QwenApiError e)
                    | Inr txt \<Rightarrow>
                        if \<not> status_success resp
                        then Inl (QwenApiError (''HTTP '' @ status_text resp @ '': '' @ txt))
                        else parse_response js (qwen_model gw) txt)))
          else ([], Inr (simulated_response gw prompt)))"

definition build_prompt :: "telemetry_frame \<Rightarrow> string" where
  "build_prompt frame =
     (let user_prompt = ''Telemetry Frame #'' @ show_word (frame_id frame) @ '' from '' @ source_ip frame
            @ newline @ ''Data: '' @ from_utf8_lossy (payload frame) @ newline @ newline
            @ ''Analyze and provide decision:''
      in SYSTEM_PROMPT @ newline @ newline @ user_prompt)"

text \<open>\<open>entry(..).or_insert(..)\<close> and the update of the entry; \<open>now\<close> is the second clock reading.\<close>

definition touch_session :: "(string, session_state) mapping \<Rightarrow> string \<Rightarrow> u64
    \<Rightarrow> (string, session_state) mapping" where
  "touch_session cache ip now =
     (let session = (case Mapping.lookup cache ip of
                       None \<Rightarrow> \<lparr>ss_last_activity = now, frame_count = 0\<rparr>
                     | Some s \<Rightarrow> s)
      in Mapping.update ip
           (session\<lparr>ss_last_activity := now, frame_count := frame_count session + 1\<rparr>) cache)"

definition gateway_process_frame :: "'v json_api \<Rightarrow> (qwen_request \<Rightarrow> string + http_reply) \<Rightarrow> tee_gateway
    \<Rightarrow> telemetry_frame \<Rightarrow> u64 \<Rightarrow> tee_gateway \<times> qwen_request list \<times> (gateway_error + qwen_response)" where
  "gateway_process_frame js post gw frame now =
     (let gw1 = gw\<lparr>processed_frames := processed_frames gw + 1\<rparr>;
          gw2 = gw1\<lparr>session_cache := touch_session (session_cache gw1) (source_ip frame) now\<rparr>
      in (gw2, call_qwen_api js post gw2 (build_prompt frame)))"

section \<open>Execution log, statistics\<close>

definition log_line :: "u64 \<Rightarrow> string \<Rightarrow> string \<Rightarrow> usize \<Rightarrow> string" where
  "log_line fid mdl act tokens =
     ''FRAME:'' @ show_word fid @ ''|MODEL:'' @ mdl @ ''|ACTION:'' @ act @ ''|TOKENS:'' @ show_word tokens"

definition generate_execution_log :: "(bytes \<Rightarrow> bytes) \<Rightarrow> u64 \<Rightarrow> qwen_response \<Rightarrow> panic + bytes" where
  "generate_execution_log sha256 fid response =
     (case choices response of
        [] \<Rightarrow> Inl Index_Out_Of_Bounds
      | c # _ \<Rightarrow>
          (let l = log_line fid (model response) (content (message c)) (total_tokens (usage response));
               h = sha256 (as_bytes l)
           in Inr (as_bytes (l @ ''|HASH:'' @ show_hex h))))"

definition gateway_get_stats :: "tee_gateway \<Rightarrow> gateway_stats" where
  "gateway_get_stats gw =
     \<lparr>gs_processed_frames = processed_frames gw,
      active_sessions = of_nat (Mapping.size (session_cache gw)),
      api_calls = processed_frames gw\<rparr>"

definition is_initialized :: "tee_gateway \<Rightarrow> bool" where
  "is_initialized gw \<longleftrightarrow> qwen_api_key gw \<noteq> None \<and> is_attested (gw_storage gw)"

section \<open>The binary\<close>

record gateway_args =
  arg_prompt :: string
  arg_endpoint :: string
  arg_model :: string
  simulate :: bool

definition gateway_report :: "(bytes \<Rightarrow> bytes) \<Rightarrow> telemetry_frame
    \<Rightarrow> qwen_request list \<times> (gateway_error + qwen_response)
    \<Rightarrow> panic + (qwen_request list \<times> (string + string list))" where
  "gateway_report sha256 frame out =
     (case out of
        (posted, Inl e) \<Rightarrow> Inr (posted, Inl (show_gateway_error e))
      | (posted, Inr response) \<Rightarrow>
          (case choices response of
             [] \<Rightarrow> Inl Index_Out_Of_Bounds
           | c # _ \<Rightarrow>
               (case generate_execution_log sha256 (frame_id frame) response of
                  Inl p \<Rightarrow> Inl p
                | Inr l \<Rightarrow> Inr (posted, Inr
                    [newline @ ''=== Qwen Cloud response ==='',
                     ''request_id : '' @ request_id response,
                     ''model      : '' @ model response,
                     ''tokens     : '' @ show_word (prompt_tokens (usage response)) @ '' in / ''
                       @ show_word (completion_tokens (usage response)) @ '' out'',
                     ''content    :'' @ newline @ content (message c),
                     newline @ ''=== Execution log (hash-chained, for verification) ==='',
                     from_utf8_lossy l]))))"

text \<open>The system clock is its distance from the epoch in nanoseconds; before the epoch the reading is 0.\<close>

definition helpers_now_ns :: "int \<Rightarrow> u64" where
  "helpers_now_ns system = (if system < 0 then 0 else word_of_int system)"

text \<open>What \<^verbatim>\<open>main\<close> ends with: an error it returns, or the text it prints.\<close>

definition gateway_main :: "(bytes \<Rightarrow> bytes) \<Rightarrow> 'v json_api \<Rightarrow> (qwen_request \<Rightarrow> string + http_reply) \<Rightarrow> bool
    \<Rightarrow> gateway_args \<Rightarrow> string option \<Rightarrow> int \<Rightarrow> u64
    \<Rightarrow> panic + (qwen_request list \<times> (string + string list))" where
  "gateway_main sha256 js post client_builds args env_key system now =
     (let key = unwrap_or env_key '''' in
      if \<not> simulate args \<and> key = ''''
      then Inr ([], Inl (''QWEN_API_KEY is not set. Get a DashScope key from the Alibaba Cloud ''
             @ ''Model Studio console, or run with --simulate for the offline demo.''))
      else
        (let (gateway, api_key) =
               (if simulate args then (gateway_new (simulated_tee sha256) (arg_endpoint args), ''simulated-key'')
                else (gateway_new_live (simulated_tee sha256) (arg_endpoint args) (arg_model args), key))
         in case gateway_initialize client_builds gateway (as_bytes api_key) of
              Inl p \<Rightarrow> Inl p
            | Inr (_, Inl e) \<Rightarrow> Inr ([], Inl (show_gateway_error e))
            | Inr (gateway, Inr _) \<Rightarrow>
                (let frame = \<lparr>frame_id = 1, source_ip = ''edge-node-01'', dest_ip = None, timestamp_ns = helpers_now_ns system,
                              payload = as_bytes (arg_prompt args), metadata = default_metadata\<rparr>
                 in case gateway_process_frame js post gateway frame now of
                      (_, out) \<Rightarrow> gateway_report sha256 frame out)))"

section \<open>Sealed storage refines "the last sealed text, once attested"\<close>

datatype storage_op = Seal bytes | Attest

fun storage_step :: "sealed_storage \<Rightarrow> storage_op \<Rightarrow> sealed_storage" where
  "storage_step st (Seal p) = fst (storage_seal st p)"
| "storage_step st Attest = fst (verify_attestation st)"

definition sealed_texts :: "storage_op list \<Rightarrow> bytes list" where
  "sealed_texts ops = concat (map (\<lambda>op. case op of Seal p \<Rightarrow> [p] | Attest \<Rightarrow> []) ops)"

lemma sealed_texts_simps [simp]:
  "sealed_texts [] = []"
  "sealed_texts (ops @ [Seal p]) = sealed_texts ops @ [p]"
  "sealed_texts (ops @ [Attest]) = sealed_texts ops"
  by (simp_all add: sealed_texts_def)

text \<open>What the storage relies on: sealing succeeds, keeps emptiness and is inverted, attesting succeeds.\<close>

locale sealing_backend =
  fixes tee :: tee_backend
  assumes seals: "\<exists>s. tee_seal tee p = Inr s \<and> (s = [] \<longleftrightarrow> p = []) \<and> tee_unseal tee s = Inr p"
    and attests: "\<exists>r. tee_attest tee = Inr r"
begin

lemma run_state:
  "st_tee (foldl storage_step (storage_new tee) ops) = tee
   \<and> attested (foldl storage_step (storage_new tee) ops) = (Attest \<in> set ops)
   \<and> (if sealed_texts ops = [] then sealed_data (foldl storage_step (storage_new tee) ops) = []
      else tee_seal tee (last (sealed_texts ops)) = Inr (sealed_data (foldl storage_step (storage_new tee) ops)))"
proof (induction ops rule: rev_induct)
  case Nil
  then show ?case by (simp add: storage_new_def)
next
  case (snoc op ops)
  show ?case
  proof (cases op)
    case (Seal p)
    obtain s where "tee_seal tee p = Inr s" using seals by blast
    then show ?thesis using snoc Seal by (simp add: storage_seal_def)
  next
    case Attest
    obtain r where "tee_attest tee = Inr r" using attests by blast
    then show ?thesis using snoc Attest by (simp add: verify_attestation_def)
  qed
qed

lemma unseal_run:
  "storage_unseal (foldl storage_step (storage_new tee) ops) =
     (if Attest \<notin> set ops then Inl AttestationFailed
      else if sealed_texts ops = [] \<or> last (sealed_texts ops) = []
      then Inl (UnsealingFailed ''No sealed data available'')
      else Inr (last (sealed_texts ops)))"
proof -
  obtain s where s: "tee_seal tee (last (sealed_texts ops)) = Inr s"
    "s = [] \<longleftrightarrow> last (sealed_texts ops) = []" "tee_unseal tee s = Inr (last (sealed_texts ops))"
    using seals by blast
  then show ?thesis
    using run_state[of ops] by (auto simp: storage_unseal_def split: if_splits)
qed

end

lemma length_xor_with_key [simp]: "length (xor_with_key k bs) = length bs"
  by (simp add: xor_with_key_def)

lemma xor_with_key_involution: "xor_with_key k (xor_with_key k bs) = bs"
  by (rule nth_equalityI) (simp_all add: xor_with_key_def xor.assoc)

lemma xor_with_key_Nil [simp]: "xor_with_key k bs = [] \<longleftrightarrow> bs = []"
  by (metis length_0_conv length_xor_with_key)

interpretation simulated_sealing: sealing_backend "simulated_tee sha256" for sha256
  by unfold_locales (simp_all add: simulated_tee_def simulated_tee_methods_def xor_with_key_involution)

section \<open>Runs of a gateway\<close>

text \<open>Each call has its own outside world and clock; a run collects what was posted and returned.\<close>

fun gateway_run :: "'v json_api \<Rightarrow> tee_gateway \<Rightarrow> ((qwen_request \<Rightarrow> string + http_reply) \<times> telemetry_frame \<times> u64) list
    \<Rightarrow> tee_gateway \<times> (qwen_request list \<times> (gateway_error + qwen_response)) list" where
  "gateway_run js gw [] = (gw, [])"
| "gateway_run js gw ((post, frame, now) # calls) =
     (case gateway_process_frame js post gw frame now of
        (gw', out) \<Rightarrow> case gateway_run js gw' calls of (gw'', outs) \<Rightarrow> (gw'', out # outs))"

abbreviation call_ip :: "(qwen_request \<Rightarrow> string + http_reply) \<times> telemetry_frame \<times> u64 \<Rightarrow> string" where
  "call_ip c \<equiv> source_ip (fst (snd c))"

definition session_frames :: "tee_gateway \<Rightarrow> string \<Rightarrow> u64" where
  "session_frames gw ip = (case Mapping.lookup (session_cache gw) ip of None \<Rightarrow> 0 | Some s \<Rightarrow> frame_count s)"

lemma gateway_process_frame_state:
  assumes "gateway_process_frame js post gw frame now = (gw', out)"
  shows "processed_frames gw' = processed_frames gw + 1"
    and "Mapping.keys (session_cache gw') = insert (source_ip frame) (Mapping.keys (session_cache gw))"
    and "session_frames gw' ip = session_frames gw ip + (if ip = source_ip frame then 1 else 0)"
    and "qwen_api_key gw' = qwen_api_key gw" "live gw' = live gw" "http_client gw' = http_client gw"
      "qwen_model gw' = qwen_model gw" "qwen_endpoint gw' = qwen_endpoint gw" "gw_storage gw' = gw_storage gw"
    and "out = call_qwen_api js post gw' (build_prompt frame)"
  using assms
  by (auto simp: gateway_process_frame_def touch_session_def Let_def session_frames_def lookup_update'
      split: option.splits)

lemma gateway_run_state:
  assumes "gateway_run js gw calls = (gw', outs)"
  shows "length outs = length calls \<and> processed_frames gw' = processed_frames gw + of_nat (length calls)
    \<and> Mapping.keys (session_cache gw') = Mapping.keys (session_cache gw) \<union> call_ip ` set calls
    \<and> session_frames gw' ip = session_frames gw ip + of_nat (length (filter (\<lambda>c. call_ip c = ip) calls))
    \<and> qwen_api_key gw' = qwen_api_key gw \<and> live gw' = live gw \<and> http_client gw' = http_client gw"
  using assms
proof (induction js gw calls arbitrary: outs rule: gateway_run.induct)
  case (2 js gw post frame now calls)
  obtain gw1 out where 1: "gateway_process_frame js post gw frame now = (gw1, out)" by (rule prod.exhaust)
  obtain outs' where 3: "gateway_run js gw1 calls = (gw', outs')" "outs = out # outs'"
    using 2(2) 1 by (auto split: prod.splits)
  show ?case
    using 2(1)[OF 1[symmetric] 3(1)] gateway_process_frame_state[OF 1] 3(2) by auto
qed simp

lemma call_qwen_api_choices:
  assumes "call_qwen_api js post gw prompt = (posted, Inr r)"
  shows "choices r \<noteq> [] \<and> map index (choices r) = map of_nat [0..<length (choices r)]"
proof -
  have p: "map index (parse_choices js v) = map of_nat [0..<length (parse_choices js v)]" for v :: 'a
    by (auto simp: parse_choices_def parse_choice_def split: option.splits intro!: nth_equalityI)
  show ?thesis
    using assms p
    by (auto simp: call_qwen_api_def simulated_response_def parse_response_def Let_def
        split: option.splits if_splits sum.splits)
qed

lemma call_qwen_api_posted:
  assumes "call_qwen_api js post gw prompt = (posted, res)"
  shows "posted = (if live gw \<and> http_client gw
      then (case qwen_api_key gw of None \<Rightarrow> [] | Some k \<Rightarrow> [qwen_call gw k prompt]) else [])"
  using assms by (auto simp: call_qwen_api_def Let_def split: option.splits if_splits)

section \<open>Properties\<close>

text \<open>C12: The sealed storage, after any sequence of \<open>seal\<close> and \<open>verify_attestation\<close> calls on the simulated
  TEE, gives out the text sealed last, byte for byte, but only once it was attested; an empty text is
  reported as missing.\<close>

theorem sealed_storage_refines_last_text:
  "storage_unseal (foldl storage_step (storage_new (simulated_tee sha256)) ops) =
     (if Attest \<notin> set ops then Inl AttestationFailed
      else if sealed_texts ops = [] \<or> last (sealed_texts ops) = []
      then Inl (UnsealingFailed ''No sealed data available'')
      else Inr (last (sealed_texts ops)))"
  by (rule simulated_sealing.unseal_run)

text \<open>Initialising a new gateway on the simulated TEE with a key that is not empty succeeds: the
  gateway is initialised, keeps the key's text for its calls and the sealed copy unseals to the
  key.\<close>

lemma initialize_seals_key:
  assumes "api_token \<noteq> []"
  shows "\<exists>gw. gateway_initialize True (gateway_new (simulated_tee sha256) endpoint) api_token = Inr (gw, Inr ())
    \<and> is_initialized gw \<and> qwen_api_key gw = Some (from_utf8_lossy api_token)
    \<and> storage_unseal (gw_storage gw) = Inr api_token
    \<and> storage_unseal (gw_storage (gateway_new (simulated_tee sha256) endpoint)) = Inl AttestationFailed"
  using simulated_sealing.unseal_run[of sha256 "[Attest, Seal api_token]"] assms
    simulated_sealing.unseal_run[of sha256 "[]"]
  by (auto simp: gateway_initialize_def gateway_new_def is_initialized_def is_attested_def storage_seal_def
      verify_attestation_def storage_new_def simulated_tee_def simulated_tee_methods_def sealed_texts_def)

text \<open>C33: The statistics of a gateway, after any sequence of frames, whatever the API answers: the frames
  counted are the frames processed, failed ones included; the active sessions are the distinct
  sources, and each session counts the frames of its source. The number reported as API calls is
  the number of frames, so it is wrong for a gateway without a key or not live: that one posts
  nothing.\<close>

theorem gateway_statistics:
  assumes "gateway_run js gw calls = (gw', outs)"
    and "processed_frames gw = 0" and "session_cache gw = Mapping.empty"
  shows "gs_processed_frames (gateway_get_stats gw') = of_nat (length calls)
    \<and> active_sessions (gateway_get_stats gw') = of_nat (card (call_ip ` set calls))
    \<and> session_frames gw' ip = of_nat (length (filter (\<lambda>c. call_ip c = ip) calls))
    \<and> api_calls (gateway_get_stats gw') = of_nat (length calls)
    \<and> (qwen_api_key gw = None \<or> \<not> live gw \<longrightarrow> list_all (\<lambda>(posted, _). posted = []) outs)"
proof -
  have "list_all (\<lambda>(posted, _). posted = []) outs" if "qwen_api_key gw = None \<or> \<not> live gw"
    using assms(1) that
  proof (induction js gw calls arbitrary: outs rule: gateway_run.induct)
    case (2 js gw post frame now calls)
    obtain gw1 posted res where 1: "gateway_process_frame js post gw frame now = (gw1, posted, res)"
      by (metis prod.collapse)
    obtain outs' where 3: "gateway_run js gw1 calls = (gw', outs')" "outs = (posted, res) # outs'"
      using 2(2) 1 by (auto split: prod.splits)
    note st = gateway_process_frame_state[OF 1]
    have "posted = []"
      using call_qwen_api_posted[OF st(10)[symmetric]] st(4,5) 2(3) by auto
    then show ?case
      using 2(1)[OF 1[symmetric] 3(1)] 2(3) st(4,5) 3(2) by simp
  qed simp
  then show ?thesis
    using gateway_run_state[OF assms(1), of ip] assms(2,3)
    by (simp add: gateway_get_stats_def Mapping.size_def session_frames_def)
qed

definition toy_json :: "unit json_api" where
  "toy_json = \<lparr>json_from_str = (\<lambda>_. Inl ''no''), json_get = (\<lambda>_ _. ()), json_array = (\<lambda>_. None),
     json_str = (\<lambda>_. None), json_u64 = (\<lambda>_. None)\<rparr>"

definition unreachable_post :: "qwen_request \<Rightarrow> string + http_reply" where
  "unreachable_post rq = Inl ''connection refused''"

theorem gateway_statistics_witness:
  "api_calls (gateway_get_stats (fst (gateway_run toy_json (gateway_new (simulated_tee id) ''https://x'')
     [(unreachable_post, demo_frame 1 2, 3), (unreachable_post, demo_frame 2 2, 4)]))) = 2
   \<and> list_all (\<lambda>(posted, _). posted = []) (snd (gateway_run toy_json (gateway_new (simulated_tee id) ''https://x'')
     [(unreachable_post, demo_frame 1 2, 3), (unreachable_post, demo_frame 2 2, 4)]))"
proof -
  let ?gw = "gateway_new (simulated_tee id) ''https://x''"
  obtain gw' outs where r: "gateway_run toy_json ?gw
     [(unreachable_post, demo_frame 1 2, 3), (unreachable_post, demo_frame 2 2, 4)] = (gw', outs)"
    by (rule prod.exhaust)
  from gateway_statistics[OF r] show ?thesis unfolding r by (simp add: gateway_new_def)
qed

lemma successful_response:
  assumes "gateway_process_frame js post gw frame now = (gw', posted, Inr response)"
  shows "choices response \<noteq> []
    \<and> map index (choices response) = map of_nat [0..<length (choices response)]
    \<and> (\<exists>l. generate_execution_log sha256 fid response = Inr l)"
proof -
  have "choices response \<noteq> [] \<and> map index (choices response) = map of_nat [0..<length (choices response)]"
    using gateway_process_frame_state(10)[OF assms] call_qwen_api_choices by metis
  then show ?thesis
    by (cases "choices response") (auto simp: generate_execution_log_def Let_def)
qed

text \<open>C15: A gateway never answers without a choice: whatever the API sends, a successful response has
  at least one choice, the choices are numbered in order, and so the execution log is produced and
  its access to the first choice does not panic.\<close>

theorem successful_response_logged:
  assumes "gateway_process_frame js post gw frame now = (gw', posted, Inr response)"
  shows "choices response \<noteq> []
    \<and> map index (choices response) = map of_nat [0..<length (choices response)]
    \<and> (\<exists>l. generate_execution_log sha256 fid response = Inr l)"
  by (rule successful_response[OF assms])

definition ready_gateway :: tee_gateway where
  "ready_gateway = (gateway_new (simulated_tee id) ''https://x'')\<lparr>qwen_api_key := Some ''k''\<rparr>"

theorem successful_response_logged_witness:
  "\<exists>response. snd (snd (gateway_process_frame toy_json unreachable_post ready_gateway (demo_frame 1 2) 3))
     = Inr response \<and> choices response \<noteq> []"
proof -
  obtain gw' posted response where
    "gateway_process_frame toy_json unreachable_post ready_gateway (demo_frame 1 2) 3 = (gw', posted, Inr response)"
    by (simp add: gateway_process_frame_def call_qwen_api_def ready_gateway_def gateway_new_def Let_def)
  from successful_response_logged[OF this] this show ?thesis by auto
qed

text \<open>An initialised gateway that is not live answers every frame, and over any run of fewer than
  \<open>2 ^ 64\<close> frames all its request identifiers are different.\<close>

lemma simulated_requests_distinct:
  assumes "qwen_api_key gw \<noteq> None" and "\<not> live gw" and "length calls < 2 ^ 64"
    and "gateway_run js gw calls = (gw', outs)"
  shows "\<exists>rs. map snd outs = map Inr rs \<and> distinct (map request_id rs)"
proof -
  have "map snd outs = map Inr (map projr (map snd outs))
    \<and> map request_id (map projr (map snd outs))
      = map (\<lambda>i. ''tee-req-'' @ show_word (processed_frames gw + of_nat i)) [1..<Suc (length calls)]"
    using assms(4,1,2)
  proof (induction js gw calls arbitrary: outs rule: gateway_run.induct)
    case (2 js gw post frame now calls)
    obtain gw1 posted res where 1: "gateway_process_frame js post gw frame now = (gw1, posted, res)"
      by (metis prod.collapse)
    obtain outs' where 3: "gateway_run js gw1 calls = (gw', outs')" "outs = (posted, res) # outs'"
      using 2(2) 1 by (auto split: prod.splits)
    note st = gateway_process_frame_state[OF 1]
    obtain k where "qwen_api_key gw1 = Some k" "\<not> live gw1" using st(4,5) 2(3,4) by auto
    then have res: "res = Inr (simulated_response gw1 (build_prompt frame))"
      using st(10) by (simp add: call_qwen_api_def)
    have IH: "map snd outs' = map Inr (map projr (map snd outs'))"
      "map request_id (map projr (map snd outs'))
        = map (\<lambda>i. ''tee-req-'' @ show_word (processed_frames gw1 + of_nat i)) [1..<Suc (length calls)]"
      using 2(1)[OF 1[symmetric] 3(1)] st(4,5) 2(3,4) by simp_all
    have "[1..<Suc (length ((post, frame, now) # calls))] = 1 # map Suc [1..<Suc (length calls)]"
      by (simp only: map_Suc_upt list.size(4) One_nat_def add_Suc_right add_0_right upt_conv_Cons
          zero_less_Suc Suc_less_eq)
    then show ?case
      using IH res st(1) 3(2)
      by (simp add: simulated_response_def add.assoc del: upt_Suc)
  qed simp
  moreover have "distinct (map (\<lambda>i. ''tee-req-'' @ show_word (processed_frames gw + of_nat i)) [1..<Suc (length calls)])"
    using assms(3) by (auto simp: distinct_map inj_on_def dest!: of_nat_word_inj[where 'a = 64])
  ultimately show ?thesis by metis
qed

text \<open>What a gateway posts is text, whatever bytes its token and the frame's payload hold.\<close>

definition request_text :: "qwen_request \<Rightarrow> bool" where
  "request_text rq \<longleftrightarrow> is_text (rq_url rq) \<and> is_text (rq_bearer rq) \<and> is_text (rq_model rq)
     \<and> list_all (\<lambda>(r, c). is_text r \<and> is_text c) (rq_messages rq)"

lemma build_prompt_text: "is_text (source_ip f) \<Longrightarrow> is_text (build_prompt f)"
  by (simp add: build_prompt_def SYSTEM_PROMPT_def newline_def text_intros)

lemma posted_text:
  assumes "gateway_process_frame js post gw f now = (gw', posted, res)"
    and "is_text (source_ip f)" "is_text (qwen_endpoint gw)" "is_text (qwen_model gw)"
    and "\<forall>k. qwen_api_key gw = Some k \<longrightarrow> is_text k"
  shows "list_all request_text posted"
  using assms build_prompt_text[OF assms(2)]
  by (auto simp: gateway_process_frame_def call_qwen_api_def qwen_call_def request_text_def text_intros Let_def
      split: option.splits if_splits)

lemma initialized_text:
  assumes "gateway_initialize builds gw token = Inr (gw', Inr ())"
  shows "qwen_endpoint gw' = qwen_endpoint gw \<and> qwen_model gw' = qwen_model gw
    \<and> (\<forall>k. qwen_api_key gw' = Some k \<longrightarrow> is_text k)"
  using assms by (auto simp: gateway_initialize_def text_intros split: prod.splits sum.splits if_splits)

text \<open>C24: A live, initialised gateway answers exactly when the request is answered with a success
  status and a body that parses to an object with a choice; every other outcome is reported as
  a \<open>QwenApiError\<close>. It posts one request per frame, that is, it hands it to the HTTP client, which may
  fail to build or to send it; the request carries its key and the prompt of the frame, to the
  endpoint without its trailing slashes.\<close>

theorem live_call_outcome:
  assumes "live gw" and "http_client gw" and "qwen_api_key gw = Some k"
    and "gateway_process_frame js post gw frame now = (gw', posted, res)"
  shows "posted = [\<lparr>rq_url = trim_end_char (CHR ''/'') (qwen_endpoint gw) @ ''/chat/completions'',
        rq_bearer = k, rq_model = qwen_model gw, rq_messages = [(''user'', build_prompt frame)]\<rparr>]
    \<and> ((\<exists>r. res = Inr r) \<longleftrightarrow> (\<exists>resp txt v c cs. post (hd posted) = Inr resp \<and> body_text resp = Inr txt
         \<and> status_success resp \<and> json_from_str js txt = Inr v
         \<and> json_array js (json_get js v ''choices'') = Some (c # cs)))
    \<and> (\<forall>e. res = Inl e \<longrightarrow> (\<exists>m. e = QwenApiError m))"
proof -
  note st = gateway_process_frame_state[OF assms(4)]
  have "parse_choices js v = [] \<longleftrightarrow> (\<nexists>c cs. json_array js (json_get js v ''choices'') = Some (c # cs))" for v
    by (cases "json_array js (json_get js v ''choices'')")
      (auto simp: parse_choices_def neq_Nil_conv, metis list.exhaust)
  then have "(\<exists>r. parse_response js d body = Inr r) \<longleftrightarrow>
      (\<exists>v c cs. json_from_str js body = Inr v \<and> json_array js (json_get js v ''choices'') = Some (c # cs))"
    "\<And>e. parse_response js d body = Inl e \<Longrightarrow> \<exists>m. e = QwenApiError m" for d body
    by (auto simp: parse_response_def Let_def split: sum.splits if_splits)
  then show ?thesis
    using st(10) assms(1-3) st(4-8)
    by (auto simp: call_qwen_api_def qwen_call_def Let_def split: sum.splits if_splits)
qed

theorem live_call_outcome_witness:
  "\<exists>m. snd (snd (gateway_process_frame toy_json unreachable_post
     (ready_gateway\<lparr>live := True, http_client := True\<rparr>) (demo_frame 1 2) 3)) = Inl (QwenApiError m)"
proof -
  let ?gw = "ready_gateway\<lparr>live := True, http_client := True\<rparr>"
  obtain gw' posted res where r: "gateway_process_frame toy_json unreachable_post ?gw (demo_frame 1 2) 3 = (gw', posted, res)"
    by (metis prod.collapse)
  from live_call_outcome[OF _ _ _ r, of "''k''"] show ?thesis
    unfolding r by (cases res) (auto simp: ready_gateway_def unreachable_post_def)
qed

subsection \<open>The execution log\<close>

lemma log_line_inject:
  assumes eq: "log_line f m a t = log_line f' m' a' t'"
    and "CHR ''|'' \<notin> set m" "CHR ''|'' \<notin> set m'"
  shows "f = f' \<and> m = m' \<and> a = a' \<and> t = t'"
proof -
  have nd: "\<not> is_digit (CHR ''|'')" "\<not> is_digit (CHR '':'')" by (simp_all add: is_digit_def)
  have "f = f'" and rest: "m @ CHR ''|'' # ''ACTION:'' @ a @ ''|TOKENS:'' @ show_word t
      = m' @ CHR ''|'' # ''ACTION:'' @ a' @ ''|TOKENS:'' @ show_word t'"
    using eq digits_then_sep[OF show_word_digits[of f] show_word_digits[of f'] nd(1) nd(1)]
    by (simp_all add: log_line_def)
  moreover from rest have "m = m'" and tail: "a @ ''|TOKENS:'' @ show_word t = a' @ ''|TOKENS:'' @ show_word t'"
    using append_sep_inject[OF assms(2,3)] by simp_all
  moreover have "show_word t = show_word t' \<and> a = a'"
  proof -
    have "rev (show_word t) @ CHR '':'' # rev (a @ ''|TOKENS'') = rev (show_word t') @ CHR '':'' # rev (a' @ ''|TOKENS'')"
      using arg_cong[OF tail, of rev] by simp
    then have "rev (show_word t) = rev (show_word t') \<and> rev (a @ ''|TOKENS'') = rev (a' @ ''|TOKENS'')"
      using digits_then_sep[OF _ _ nd(2) nd(2)] show_word_digits by (metis list_all_rev)
    then show ?thesis by simp
  qed
  ultimately show ?thesis by simp
qed

text \<open>C26: The execution log identifies what was answered: when the hash has a fixed length, two
  responses with the same log bytes have the same frame number, model, content and token count,
  provided that the model names contain no \<open>|\<close>.\<close>

theorem execution_log_identifies:
  assumes "\<forall>x. length (sha256 x) = 32"
    and "generate_execution_log sha256 f r = Inr l" and "generate_execution_log sha256 f' r' = Inr l"
    and "CHR ''|'' \<notin> set (model r)" and "CHR ''|'' \<notin> set (model r')"
  shows "f = f' \<and> model r = model r' \<and> total_tokens (usage r) = total_tokens (usage r')
    \<and> content (message (hd (choices r))) = content (message (hd (choices r')))"
proof -
  obtain c cs c' cs' where c: "choices r = c # cs" "choices r' = c' # cs'"
    using assms(2,3) by (auto simp: generate_execution_log_def split: list.splits)
  let ?l = "log_line f (model r) (content (message c)) (total_tokens (usage r))"
  let ?l' = "log_line f' (model r') (content (message c')) (total_tokens (usage r'))"
  have "?l @ ''|HASH:'' @ show_hex (sha256 (as_bytes ?l)) = ?l' @ ''|HASH:'' @ show_hex (sha256 (as_bytes ?l'))"
  proof -
    have "as_bytes (?l @ ''|HASH:'' @ show_hex (sha256 (as_bytes ?l)))
        = as_bytes (?l' @ ''|HASH:'' @ show_hex (sha256 (as_bytes ?l')))"
      using assms(2,3) c by (simp add: generate_execution_log_def Let_def)
    then show ?thesis by (simp only: as_bytes_inject)
  qed
  then have "?l = ?l'" using assms(1) by (subst (asm) append_eq_append_conv) simp_all
  from log_line_inject[OF this assms(4,5)] show ?thesis by (simp add: c)
qed

theorem execution_log_identifies_witness:
  "\<exists>l. generate_execution_log (\<lambda>_. replicate 32 0) 1 (simulated_response ready_gateway ''p'') = Inr l
     \<and> generate_execution_log (\<lambda>_. replicate 32 0) 2 (simulated_response ready_gateway ''p'') \<noteq> Inr l"
proof -
  let ?sha = "\<lambda>_ :: bytes. replicate 32 (0 :: u8)" and ?r = "simulated_response ready_gateway ''p''"
  obtain l where l: "generate_execution_log ?sha 1 ?r = Inr l"
    by (simp add: generate_execution_log_def simulated_response_def Let_def)
  have "CHR ''|'' \<notin> set (model ?r)" by (simp add: simulated_response_def ready_gateway_def gateway_new_def)
  then have "generate_execution_log ?sha 2 ?r \<noteq> Inr l"
    using execution_log_identifies[of ?sha 1 ?r l 2 ?r] l by auto
  with l show ?thesis by blast
qed

text \<open>Without that proviso the log is ambiguous: its fields are not escaped, so text can move between
  the model and the content without changing the log or its hash.\<close>

lemma execution_log_ambiguous:
  "generate_execution_log sha256 f \<lparr>request_id = i, model = m @ ''|ACTION:'' @ x,
       choices = [c\<lparr>message := \<lparr>role = ro, content = y\<rparr>\<rparr>], usage = u\<rparr>
   = generate_execution_log sha256 f \<lparr>request_id = i, model = m,
       choices = [c\<lparr>message := \<lparr>role = ro, content = x @ ''|ACTION:'' @ y\<rparr>\<rparr>], usage = u\<rparr>"
  by (simp add: generate_execution_log_def log_line_def Let_def)

subsection \<open>The binary\<close>

lemma initialize_simulated:
  assumes "gw_storage gw = storage_new (simulated_tee sha256)"
  obtains st where "gateway_initialize True gw tok =
    Inr (gw\<lparr>gw_storage := st, qwen_api_key := Some (from_utf8_lossy tok), http_client := True\<rparr>, Inr ())"
  using assms that
  by (auto simp: gateway_initialize_def storage_new_def verify_attestation_def storage_seal_def simulated_tee_def simulated_tee_methods_def)

text \<open>C36: The gateway binary, when the HTTP client can be built, never panics: it ends with an error or
  with its report. It posts at most one request, only in live mode and with the key of the
  environment as bearer; with \<open>--simulate\<close> it posts nothing and always reports.\<close>

theorem gateway_main_total:
  "\<exists>posted out. gateway_main sha256 js post True args env_key system now = Inr (posted, out)
    \<and> (simulate args \<longrightarrow> posted = [] \<and> (\<exists>lines. out = Inr lines))
    \<and> length posted \<le> 1
    \<and> list_all (\<lambda>rq. \<not> simulate args \<and> env_key \<noteq> None
         \<and> rq_bearer rq = from_utf8_lossy (as_bytes (the env_key))) posted"
proof (cases "\<not> simulate args \<and> unwrap_or env_key '''' = ''''")
  case True
  then show ?thesis by (simp add: gateway_main_def)
next
  case False
  let ?k = "if simulate args then ''simulated-key'' else unwrap_or env_key ''''"
  define gw where "gw = (if simulate args then gateway_new (simulated_tee sha256) (arg_endpoint args)
    else gateway_new_live (simulated_tee sha256) (arg_endpoint args) (arg_model args))"
  define frame where "frame = \<lparr>frame_id = 1, source_ip = ''edge-node-01'', dest_ip = None, timestamp_ns = helpers_now_ns system,
    payload = as_bytes (arg_prompt args), metadata = default_metadata\<rparr>"
  have gw: "gw_storage gw = storage_new (simulated_tee sha256)" "live gw = (\<not> simulate args)"
    by (simp_all add: gw_def gateway_new_live_def gateway_new_def)
  obtain st where i: "gateway_initialize True gw (as_bytes ?k) =
      Inr (gw\<lparr>gw_storage := st, qwen_api_key := Some (from_utf8_lossy (as_bytes ?k)), http_client := True\<rparr>, Inr ())"
    using initialize_simulated[OF gw(1)] .
  let ?g = "gw\<lparr>gw_storage := st, qwen_api_key := Some (from_utf8_lossy (as_bytes ?k)), http_client := True\<rparr>"
  obtain gw' posted res where r: "gateway_process_frame js post ?g frame now = (gw', posted, res)"
    by (metis prod.collapse)
  note st' = gateway_process_frame_state[OF r]
  have main: "gateway_main sha256 js post True args env_key system now = gateway_report sha256 frame (posted, res)"
    using False i r unfolding gateway_main_def frame_def gw_def
    by (simp split: if_splits)
  have posted: "posted = (if live gw then [qwen_call gw' (from_utf8_lossy (as_bytes ?k)) (build_prompt frame)] else [])"
    using call_qwen_api_posted[OF st'(10)[symmetric]] st'(4-6) by simp
  have "\<exists>r. res = Inr r" if "simulate args"
    using st'(10) st'(4,5) gw(2) that by (simp add: call_qwen_api_def)
  moreover have "\<exists>out. gateway_main sha256 js post True args env_key system now = Inr (posted, out)
      \<and> ((\<exists>r. res = Inr r) \<longrightarrow> (\<exists>lines. out = Inr lines))"
  proof (cases res)
    case (Inr response)
    from successful_response[OF r[unfolded Inr], of sha256 "frame_id frame"] obtain c cs l where
      "choices response = c # cs" "generate_execution_log sha256 (frame_id frame) response = Inr l"
      by (auto simp: neq_Nil_conv)
    then show ?thesis by (simp add: main gateway_report_def Inr)
  qed (simp add: main gateway_report_def)
  ultimately show ?thesis
    using posted gw(2) False by (cases env_key) (auto simp: qwen_call_def)
qed

theorem gateway_main_total_witness:
  "\<exists>lines. gateway_main id toy_json unreachable_post True
     \<lparr>arg_prompt = ''temp=41C'', arg_endpoint = DASHSCOPE_INTL_ENDPOINT, arg_model = ''qwen-max'', simulate = True\<rparr>
     None 0 0 = Inr ([], Inr lines)"
  using gateway_main_total[of id toy_json unreachable_post
      "\<lparr>arg_prompt = ''temp=41C'', arg_endpoint = DASHSCOPE_INTL_ENDPOINT, arg_model = ''qwen-max'', simulate = True\<rparr>"
      None 0 0] by auto

end
