(* ===== verification/ZkProofs.thy ===== *)
theory ZkProofs
  imports Float64 Text "HOL-Library.Mapping"
begin

text \<open>
  The policy proofs (\<^verbatim>\<open>crates/zk-proofs/src/lib.rs\<close>): safety policies and the evaluation of their
  constraints against an action, the circuit handed to Groth16, and the generator that registers
  policies, generates and checks proofs and exports a log. arkworks and SHA-256 are third-party
  code, so the proving system is the parameter \<open>groth16\<close>; its random numbers, the clock and the
  iteration order of a \<^verbatim>\<open>HashMap\<close> are arguments.
\<close>

section \<open>Errors, policies, actions\<close>

datatype zk_error =
    PolicyNotFound string
  | MissingField string
  | InvalidOperator string
  | ConstraintViolation
  | ProofGenerationFailed string
  | VerificationFailed

fun show_zk_error :: "zk_error \<Rightarrow> string" where
  "show_zk_error (PolicyNotFound s) = ''Policy not found: '' @ s"
| "show_zk_error (MissingField s) = ''Missing field: '' @ s"
| "show_zk_error (InvalidOperator s) = ''Invalid operator: '' @ s"
| "show_zk_error ConstraintViolation = ''Constraint violation''"
| "show_zk_error (ProofGenerationFailed s) = ''Proof generation failed: '' @ s"
| "show_zk_error VerificationFailed = ''Verification failed''"

datatype policy_constraint =
    Range (range_field: string) (range_min: i64) (range_max: i64)
  | Threshold (thr_field: string) (thr_operator: string) (thr_value: f64)
  | And "policy_constraint list"
  | Or "policy_constraint list"

record safety_policy =
  policy_id :: string
  description :: string
  circuit_constraints :: "policy_constraint list"

record zk_proof =
  zp_proof_id :: string
  zp_policy_id :: string
  proof_bytes :: bytes
  public_inputs :: "string list"
  verification_key_hash :: string
  zp_timestamp :: u64

record verification_result =
  valid :: bool
  vr_proof_id :: string
  execution_trace_hash :: string
  satisfied_constraints :: usize
  total_constraints :: usize

record action_data =
  action_name :: string
  parameters :: "string \<rightharpoonup> string"
  numeric_values :: "string \<rightharpoonup> i64"
  ad_confidence :: f32

definition action_new :: "string \<Rightarrow> action_data" where
  "action_new nm = \<lparr>action_name = nm, parameters = Map.empty, numeric_values = Map.empty,
     ad_confidence = f32_lit 0\<rparr>"

definition with_param :: "action_data \<Rightarrow> string \<Rightarrow> string \<Rightarrow> action_data" where
  "with_param a k v = a\<lparr>parameters := (parameters a)(k \<mapsto> v)\<rparr>"

definition with_numeric :: "action_data \<Rightarrow> string \<Rightarrow> i64 \<Rightarrow> action_data" where
  "with_numeric a k v = a\<lparr>numeric_values := (numeric_values a)(k \<mapsto> v)\<rparr>"

definition with_confidence :: "action_data \<Rightarrow> f32 \<Rightarrow> action_data" where
  "with_confidence a c = a\<lparr>ad_confidence := c\<rparr>"

definition get_numeric :: "action_data \<Rightarrow> string \<Rightarrow> i64 option" where
  "get_numeric a field = numeric_values a field"

section \<open>Evaluating constraints\<close>

text \<open>The two loops over conditions, with the early returns of \<open>?\<close> and of a decisive condition.\<close>

fun try_all :: "('c \<Rightarrow> 'e + bool) \<Rightarrow> 'c list \<Rightarrow> 'e + bool" where
  "try_all check [] = Inr True"
| "try_all check (c # cs) =
     (case check c of Inl e \<Rightarrow> Inl e | Inr b \<Rightarrow> if \<not> b then Inr False else try_all check cs)"

fun try_any :: "('c \<Rightarrow> 'e + bool) \<Rightarrow> 'c list \<Rightarrow> 'e + bool" where
  "try_any check [] = Inr False"
| "try_any check (c # cs) =
     (case check c of Inl e \<Rightarrow> Inl e | Inr b \<Rightarrow> if b then Inr True else try_any check cs)"

lemma try_all_cong [fundef_cong]:
  "xs = ys \<Longrightarrow> (\<And>x. x \<in> set ys \<Longrightarrow> f x = g x) \<Longrightarrow> try_all f xs = try_all g ys"
  by (induction ys arbitrary: xs) (auto split: sum.splits)

lemma try_any_cong [fundef_cong]:
  "xs = ys \<Longrightarrow> (\<And>x. x \<in> set ys \<Longrightarrow> f x = g x) \<Longrightarrow> try_any f xs = try_any g ys"
  by (induction ys arbitrary: xs) (auto split: sum.splits)

definition check_threshold :: "string \<Rightarrow> i64 \<Rightarrow> f64 \<Rightarrow> zk_error + bool" where
  "check_threshold op actual v =
     (let x = f64_of_int (sint actual) in
      if op = ''>'' then Inr (x > v)
      else if op = ''>='' then Inr (x \<ge> v)
      else if op = ''<'' then Inr (x < v)
      else if op = ''<='' then Inr (x \<le> v)
      else if op = ''=='' then Inr (fp_abs (fp_sub binary64 x v) < f64_epsilon)
      else Inl (InvalidOperator op))"

fun check_constraint :: "policy_constraint \<Rightarrow> action_data \<Rightarrow> zk_error + bool" where
  "check_constraint (Range field lo hi) a =
     (case get_numeric a field of
        None \<Rightarrow> Inl (MissingField field)
      | Some v \<Rightarrow> Inr (lo \<le>s v \<and> v \<le>s hi))"
| "check_constraint (Threshold field op v) a =
     (case get_numeric a field of
        None \<Rightarrow> Inl (MissingField field)
      | Some actual \<Rightarrow> check_threshold op actual v)"
| "check_constraint (And conditions) a = try_all (\<lambda>c. check_constraint c a) conditions"
| "check_constraint (Or conditions) a = try_any (\<lambda>c. check_constraint c a) conditions"

definition verify_constraints :: "policy_constraint list \<Rightarrow> action_data \<Rightarrow> zk_error + bool" where
  "verify_constraints cs a = try_all (\<lambda>c. check_constraint c a) cs"

section \<open>The circuit\<close>

text \<open>
  The constraint system a circuit builds: its public inputs in the order they are allocated, and
  triples of input indices whose first two must multiply to the third. Field elements are any
  commutative ring.
\<close>

record 'f r1cs =
  inputs :: "'f list"
  r1cs_constraints :: "(nat \<times> nat \<times> nat) list"

definition new_input_variable :: "'f r1cs \<Rightarrow> 'f \<Rightarrow> 'f r1cs \<times> nat" where
  "new_input_variable cs x = (cs\<lparr>inputs := inputs cs @ [x]\<rparr>, length (inputs cs))"

definition enforce :: "'f r1cs \<Rightarrow> nat \<Rightarrow> nat \<Rightarrow> nat \<Rightarrow> 'f r1cs" where
  "enforce cs a b c = cs\<lparr>r1cs_constraints := r1cs_constraints cs @ [(a, b, c)]\<rparr>"

fun allocate_values :: "nat \<Rightarrow> u64 list \<Rightarrow> ('f::comm_ring_1) r1cs \<Rightarrow> 'f r1cs" where
  "allocate_values one_var [] cs = cs"
| "allocate_values one_var (v # vs) cs =
     (let (cs1, var) = new_input_variable cs (of_nat (unat v));
          (cs2, var2) = new_input_variable cs1 (of_nat (unat v))
      in allocate_values one_var vs (enforce cs2 var one_var var2))"

record policy_circuit =
  circuit_values :: "u64 list"

definition generate_constraints :: "policy_circuit \<Rightarrow> ('f::comm_ring_1) r1cs" where
  "generate_constraints circuit =
     (let (cs, one_var) = new_input_variable \<lparr>inputs = [], r1cs_constraints = []\<rparr> 1
      in allocate_values one_var (circuit_values circuit) cs)"

section \<open>The generator\<close>

text \<open>
  What the generator uses of Groth16: setup and proving for the constraint system that the circuit
  generates, the text a key prints as, and the little-endian coordinates of a proof's three points.
\<close>

record ('f, 'pk, 'vk, 'pf) groth16 =
  circuit_specific_setup :: "nat \<Rightarrow> 'f r1cs \<Rightarrow> string + 'pk \<times> 'vk"
  prove :: "nat \<Rightarrow> 'pk \<Rightarrow> 'f r1cs \<Rightarrow> string + 'pf"
  vk_debug :: "'vk \<Rightarrow> string"
  a_x :: "'pf \<Rightarrow> bytes"
  a_y :: "'pf \<Rightarrow> bytes"
  b_x_c0 :: "'pf \<Rightarrow> bytes"
  b_x_c1 :: "'pf \<Rightarrow> bytes"
  b_y_c0 :: "'pf \<Rightarrow> bytes"
  b_y_c1 :: "'pf \<Rightarrow> bytes"
  c_x :: "'pf \<Rightarrow> bytes"
  c_y :: "'pf \<Rightarrow> bytes"

definition serialize_proof :: "('f, 'pk, 'vk, 'pf) groth16 \<Rightarrow> 'pf \<Rightarrow> bytes" where
  "serialize_proof g p = a_x g p @ a_y g p @ b_x_c0 g p @ b_x_c1 g p @ b_y_c0 g p @ b_y_c1 g p
     @ c_x g p @ c_y g p"

record ('pk, 'vk) circuit_setup =
  proving_key :: 'pk
  verifying_key :: 'vk
  vk_hash :: string

record ('pk, 'vk) generator =
  policies :: "(string, safety_policy) mapping"
  proof_count :: u64
  setup_keys :: "(string, ('pk, 'vk) circuit_setup) mapping"

definition generator_new :: "('pk, 'vk) generator" where
  "generator_new = \<lparr>policies = Mapping.empty, proof_count = 0, setup_keys = Mapping.empty\<rparr>"

definition register_policy :: "(bytes \<Rightarrow> bytes) \<Rightarrow> ('f::comm_ring_1, 'pk, 'vk, 'pf) groth16 \<Rightarrow> nat \<Rightarrow> ('pk, 'vk) generator
    \<Rightarrow> safety_policy \<Rightarrow> ('pk, 'vk) generator" where
  "register_policy sha256 g rnd gen policy =
     (let gen1 = (case circuit_specific_setup g rnd (generate_constraints \<lparr>circuit_values = [42, 100]\<rparr>) of
                    Inr (pk, vk) \<Rightarrow>
                      gen\<lparr>setup_keys := Mapping.update (policy_id policy)
                         \<lparr>proving_key = pk, verifying_key = vk,
                          vk_hash = show_hex (sha256 (as_bytes (vk_debug g vk)))\<rparr> (setup_keys gen)\<rparr>
                  | Inl e \<Rightarrow> gen)
      in gen1\<lparr>policies := Mapping.update (policy_id policy) policy (policies gen1)\<rparr>)"

text \<open>\<open>iter\<close> yields the values of a hash map in its iteration order.\<close>

definition action_circuit :: "((string \<rightharpoonup> i64) \<Rightarrow> i64 list) \<Rightarrow> action_data \<Rightarrow> policy_circuit" where
  "action_circuit iter a = (let values = iter (numeric_values a)
     in \<lparr>circuit_values = (if values = [] then [0] else values)\<rparr>)"

definition fallback_bytes :: "('pk, 'vk) generator \<Rightarrow> string \<Rightarrow> bytes \<Rightarrow> string \<Rightarrow> bytes" where
  "fallback_bytes gen pid trace e =
     as_bytes pid @ take (min 32 (length trace)) trace @ le_bytes 8 (proof_count gen + 1)
     @ as_bytes (''fallback:'' @ e)"

text \<open>
  \<open>now_secs\<close> is the clock reading that stamps the proof, in seconds since the epoch. The code unwraps
  it, so that with a clock before the epoch it panics, but only when there is a proof to stamp;
  \<open>generate_proof_clocked\<close> adds that to it, over the nanoseconds from the epoch to the reading.
\<close>

definition generate_proof :: "(bytes \<Rightarrow> bytes) \<Rightarrow> ('f::comm_ring_1, 'pk, 'vk, 'pf) groth16 \<Rightarrow> nat \<Rightarrow> ((string \<rightharpoonup> i64) \<Rightarrow> i64 list)
    \<Rightarrow> ('pk, 'vk) generator \<Rightarrow> string \<Rightarrow> action_data \<Rightarrow> bytes \<Rightarrow> u64 \<Rightarrow> zk_error + zk_proof" where
  "generate_proof sha256 g rnd iter gen pid a trace now_secs =
     (case Mapping.lookup (policies gen) pid of
        None \<Rightarrow> Inl (PolicyNotFound pid)
      | Some policy \<Rightarrow>
          (case verify_constraints (circuit_constraints policy) a of
             Inl e \<Rightarrow> Inl e
           | Inr satisfied \<Rightarrow>
               if \<not> satisfied then Inl ConstraintViolation
               else (case Mapping.lookup (setup_keys gen) pid of
                  None \<Rightarrow> Inl (PolicyNotFound pid)
                | Some setup \<Rightarrow>
                    (let pb = (case prove g rnd (proving_key setup) (generate_constraints (action_circuit iter a)) of
                                 Inr p \<Rightarrow> serialize_proof g p
                               | Inl e \<Rightarrow> fallback_bytes gen pid trace e)
                     in Inr \<lparr>zp_proof_id = ''zk-proof-'' @ show_word (proof_count gen + 1),
                             zp_policy_id = pid, proof_bytes = pb,
                             public_inputs = [show_hex (sha256 trace)],
                             verification_key_hash = vk_hash setup, zp_timestamp = now_secs\<rparr>))))"

definition generate_proof_clocked :: "(bytes \<Rightarrow> bytes) \<Rightarrow> ('f::comm_ring_1, 'pk, 'vk, 'pf) groth16 \<Rightarrow> nat \<Rightarrow> ((string \<rightharpoonup> i64) \<Rightarrow> i64 list)
    \<Rightarrow> ('pk, 'vk) generator \<Rightarrow> string \<Rightarrow> action_data \<Rightarrow> bytes \<Rightarrow> int \<Rightarrow> panic + (zk_error + zk_proof)" where
  "generate_proof_clocked sha256 g rnd iter gen pid a trace system =
     (case generate_proof sha256 g rnd iter gen pid a trace (word_of_int (system div 1000000000)) of
        Inl e \<Rightarrow> Inr (Inl e)
      | Inr proof \<Rightarrow> if system < 0 then Inl Unwrap_On_Error else Inr (Inr proof))"

lemma generate_proof_panics_iff:
  "isl (generate_proof_clocked sha256 g rnd iter gen pid a trace system)
    \<longleftrightarrow> system < 0 \<and> (\<exists>proof. generate_proof sha256 g rnd iter gen pid a trace
          (word_of_int (system div 1000000000)) = Inr proof)"
  by (simp add: generate_proof_clocked_def split: sum.split)

definition verify_proof :: "('pk, 'vk) generator \<Rightarrow> zk_proof \<Rightarrow> zk_error + verification_result" where
  "verify_proof gen proof =
     (case Mapping.lookup (policies gen) (zp_policy_id proof) of
        None \<Rightarrow> Inl (PolicyNotFound (zp_policy_id proof))
      | Some policy \<Rightarrow>
          (let total = usize_len (circuit_constraints policy);
               is_valid = (proof_bytes proof \<noteq> [] \<and> public_inputs proof \<noteq> [])
           in Inr \<lparr>valid = is_valid, vr_proof_id = zp_proof_id proof,
                   execution_trace_hash = (case public_inputs proof of [] \<Rightarrow> '''' | h # _ \<Rightarrow> h),
                   satisfied_constraints = (if is_valid then total else 0),
                   total_constraints = total\<rparr>))"

definition log_entry :: "zk_proof \<Rightarrow> string" where
  "log_entry proof = ''PROOF:'' @ zp_proof_id proof @ ''|POLICY:'' @ zp_policy_id proof
     @ ''|VK_HASH:'' @ verification_key_hash proof @ ''|TS:'' @ show_word (zp_timestamp proof)"

fun export_execution_log :: "zk_proof list \<Rightarrow> bytes" where
  "export_execution_log [] = []"
| "export_execution_log (proof # proofs) =
     as_bytes (log_entry proof @ [CHR 0x0A]) @ export_execution_log proofs"

definition generator_default :: "('pk, 'vk) generator" where
  "generator_default = generator_new"

definition policy_count :: "('pk, 'vk) generator \<Rightarrow> usize" where
  "policy_count gen = of_nat (Mapping.size (policies gen))"

section \<open>What constraints mean\<close>

text \<open>
  The specification: comparisons of the exact integer with the exact value of the double, where
  \<open>==\<close> means closer than the machine epsilon.
\<close>

definition within_epsilon :: "int \<Rightarrow> f64 \<Rightarrow> bool" where
  "within_epsilon n v = (case v of Fin q \<Rightarrow> \<bar>of_int n - q\<bar> < 1 / 2 ^ 52 | _ \<Rightarrow> False)"

definition meets_op :: "string \<Rightarrow> int \<Rightarrow> f64 \<Rightarrow> bool" where
  "meets_op op n v =
     (if op = ''>'' then v < Fin (of_int n)
      else if op = ''>='' then v \<le> Fin (of_int n)
      else if op = ''<'' then Fin (of_int n) < v
      else if op = ''<='' then Fin (of_int n) \<le> v
      else within_epsilon n v)"

fun meets :: "policy_constraint \<Rightarrow> (string \<rightharpoonup> i64) \<Rightarrow> bool" where
  "meets (Range field lo hi) env =
     (case env field of None \<Rightarrow> False | Some n \<Rightarrow> sint lo \<le> sint n \<and> sint n \<le> sint hi)"
| "meets (Threshold field op v) env =
     (case env field of None \<Rightarrow> False | Some n \<Rightarrow> meets_op op (sint n) v)"
| "meets (And conditions) env = list_all (\<lambda>c. meets c env) conditions"
| "meets (Or conditions) env = list_ex (\<lambda>c. meets c env) conditions"

text \<open>
  A constraint is well posed for an action when the fields it names are present, its operators
  exist, and the thresholded values are within the range of integers that a double represents.
\<close>

definition operators :: "string list" where
  "operators = [''>'', ''>='', ''<'', ''<='', ''=='']"

fun well_posed :: "policy_constraint \<Rightarrow> (string \<rightharpoonup> i64) \<Rightarrow> bool" where
  "well_posed (Range field lo hi) env \<longleftrightarrow> env field \<noteq> None"
| "well_posed (Threshold field op v) env \<longleftrightarrow> op \<in> set operators \<and> fp_in binary64 v
     \<and> (case env field of None \<Rightarrow> False | Some n \<Rightarrow> \<bar>sint n\<bar> \<le> 2 ^ 53)"
| "well_posed (And conditions) env \<longleftrightarrow> list_all (\<lambda>c. well_posed c env) conditions"
| "well_posed (Or conditions) env \<longleftrightarrow> list_all (\<lambda>c. well_posed c env) conditions"

lemma abs_less_epsilon:
  "fp_abs (fp_of_rat binary64 x) < f64_epsilon \<longleftrightarrow> \<bar>fround binary64 x\<bar> < 1 / 2 ^ 52"
proof -
  have "(1 / 2 ^ 52 :: rat) < 2 ^ 1024"
    by (rule le_less_trans[of _ 1]) simp_all
  then show ?thesis
    by (auto simp: fp_of_rat_def Let_def f64_epsilon_def two_powi_1024 abs_less_iff)
qed

lemma sub_less_epsilon:
  assumes "fp_in binary64 v"
  shows "fp_abs (fp_sub binary64 (Fin (of_int z)) v) < f64_epsilon \<longleftrightarrow> within_epsilon z v"
  using assms fround64_less_epsilon[of _ z]
  by (cases v) (auto simp: fp_sub_def within_epsilon_def fp_in_def abs_less_epsilon, simp_all add: f64_epsilon_def)

lemma check_threshold_exact:
  assumes "op \<in> set operators" "fp_in binary64 v" "\<bar>sint n\<bar> \<le> 2 ^ 53"
  shows "check_threshold op n v = Inr (meets_op op (sint n) v)"
  using assms sub_less_epsilon[of v "sint n"]
  by (auto simp: check_threshold_def meets_op_def operators_def f64_of_int_exact)

lemma try_all_total:
  "list_all (\<lambda>c. check c = Inr (P c)) cs \<Longrightarrow> try_all check cs = Inr (list_all P cs)"
  by (induction cs) auto

lemma try_any_total:
  "list_all (\<lambda>c. check c = Inr (P c)) cs \<Longrightarrow> try_any check cs = Inr (list_ex P cs)"
  by (induction cs) auto

lemma check_constraint_meets:
  "well_posed c (numeric_values a) \<Longrightarrow> check_constraint c a = Inr (meets c (numeric_values a))"
proof (induction c a rule: check_constraint.induct)
  case (3 conditions a)
  then show ?case by (simp add: list_all_iff try_all_total[of _ "\<lambda>c. meets c (numeric_values a)"])
next
  case (4 conditions a)
  then show ?case by (simp add: list_all_iff try_any_total[of _ "\<lambda>c. meets c (numeric_values a)"])
qed (auto simp: get_numeric_def word_sle_eq check_threshold_exact split: option.splits)

lemma verify_constraints_meets:
  "list_all (\<lambda>c. well_posed c (numeric_values a)) cs
    \<Longrightarrow> verify_constraints cs a = Inr (list_all (\<lambda>c. meets c (numeric_values a)) cs)"
  unfolding verify_constraints_def
  by (rule try_all_total) (simp add: list_all_iff check_constraint_meets)

text \<open>The loop over all conditions stops at the first one that is not satisfied, with its result.\<close>

lemma try_all_True: "try_all check cs = Inr True \<longleftrightarrow> list_all (\<lambda>c. check c = Inr True) cs"
  by (induction cs) (auto split: sum.splits)

lemma try_all_decisive:
  "r \<noteq> Inr True \<Longrightarrow> try_all check cs = r \<longleftrightarrow>
     (\<exists>pre c post. cs = pre @ c # post \<and> list_all (\<lambda>c. check c = Inr True) pre \<and> check c = r)"
proof (induction cs)
  case (Cons d cs)
  show ?case
  proof (cases "check d = Inr True")
    case True
    have "(\<exists>pre c post. d # cs = pre @ c # post \<and> list_all (\<lambda>c. check c = Inr True) pre \<and> check c = r)
      \<longleftrightarrow> (\<exists>pre c post. cs = pre @ c # post \<and> list_all (\<lambda>c. check c = Inr True) pre \<and> check c = r)"
      (is "?L \<longleftrightarrow> ?R")
    proof
      assume ?L
      then obtain pre c post where "d # cs = pre @ c # post" "list_all (\<lambda>c. check c = Inr True) pre" "check c = r"
        by blast
      with True Cons.prems show ?R by (cases pre) auto
    next
      assume ?R
      then obtain pre c post where "cs = pre @ c # post" "list_all (\<lambda>c. check c = Inr True) pre" "check c = r"
        by blast
      with True show ?L by (intro exI[of _ "d # pre"] exI[of _ c] exI[of _ post]) simp
    qed
    then show ?thesis using True Cons by simp
  next
    case False
    then have "try_all check (d # cs) = check d" by (auto split: sum.splits)
    moreover have "(\<exists>pre c post. d # cs = pre @ c # post \<and> list_all (\<lambda>c. check c = Inr True) pre \<and> check c = r)
      \<longleftrightarrow> check d = r" (is "?L \<longleftrightarrow> _")
    proof
      assume ?L
      then obtain pre c post where "d # cs = pre @ c # post" "list_all (\<lambda>c. check c = Inr True) pre" "check c = r"
        by blast
      with False show "check d = r" by (cases pre) auto
    qed (force intro: exI[of _ "[]"])
    ultimately show ?thesis by simp
  qed
qed simp

section \<open>The generator and its verifier\<close>

lemma generate_proof_Inr:
  assumes "generate_proof sha256 g rnd iter gen pid a trace now = Inr proof"
  obtains policy sk where "Mapping.lookup (policies gen) pid = Some policy"
    "verify_constraints (circuit_constraints policy) a = Inr True"
    "Mapping.lookup (setup_keys gen) pid = Some sk" "zp_policy_id proof = pid"
    "proof_bytes proof = (case prove g rnd (proving_key sk) (generate_constraints (action_circuit iter a)) of
        Inr p \<Rightarrow> serialize_proof g p | Inl e \<Rightarrow> fallback_bytes gen pid trace e)"
    "public_inputs proof = [show_hex (sha256 trace)]"
    "zp_proof_id proof = ''zk-proof-'' @ show_word (proof_count gen + 1)"
    "verification_key_hash proof = vk_hash sk"
  using assms by (auto simp: generate_proof_def Let_def split: option.splits sum.splits if_splits)

definition register_all :: "(bytes \<Rightarrow> bytes) \<Rightarrow> ('f::comm_ring_1, 'pk, 'vk, 'pf) groth16 \<Rightarrow> (nat \<times> safety_policy) list
    \<Rightarrow> ('pk, 'vk) generator" where
  "register_all sha256 g ps = foldl (\<lambda>gen (rnd, p). register_policy sha256 g rnd gen p) generator_new ps"

lemma register_policy_state [simp]:
  "proof_count (register_policy sha256 g rnd gen p) = proof_count gen"
  "policies (register_policy sha256 g rnd gen p) = Mapping.update (policy_id p) p (policies gen)"
  by (simp_all add: register_policy_def Let_def split: sum.splits)

lemma register_policy_keys:
  "Mapping.lookup (setup_keys (register_policy sha256 g rnd gen p)) i =
     (case circuit_specific_setup g rnd (generate_constraints \<lparr>circuit_values = [42, 100]\<rparr>) of
        Inl e \<Rightarrow> Mapping.lookup (setup_keys gen) i
      | Inr (pk, vk) \<Rightarrow> if i = policy_id p
          then Some \<lparr>proving_key = pk, verifying_key = vk, vk_hash = show_hex (sha256 (as_bytes (vk_debug g vk)))\<rparr>
          else Mapping.lookup (setup_keys gen) i)"
  by (auto simp: register_policy_def Let_def lookup_update' split: sum.splits)

lemma register_all_snoc [simp]:
  "register_all sha256 g [] = generator_new"
  "register_all sha256 g (ps @ [(rnd, p)]) = register_policy sha256 g rnd (register_all sha256 g ps) p"
  by (simp_all add: register_all_def)

text \<open>The policy in force under an identifier is the last one registered with it.\<close>

definition policy_in_force :: "(nat \<times> safety_policy) list \<Rightarrow> string \<Rightarrow> safety_policy option" where
  "policy_in_force ps i = map_option snd (find (\<lambda>(_, p). policy_id p = i) (rev ps))"

lemma register_all_state:
  "proof_count (register_all sha256 g ps) = 0"
  "Mapping.lookup (policies (register_all sha256 g ps)) i = policy_in_force ps i"
  "Mapping.keys (policies (register_all sha256 g ps)) = (\<lambda>(_, p). policy_id p) ` set ps"
  by (induction ps rule: rev_induct)
    (auto simp: generator_new_def policy_in_force_def lookup_update')

lemma register_all_keys:
  assumes "\<forall>rnd. \<exists>k. circuit_specific_setup g rnd (generate_constraints \<lparr>circuit_values = [42, 100]\<rparr>) = Inr k" and "policy_in_force ps i \<noteq> None"
  shows "Mapping.lookup (setup_keys (register_all sha256 g ps)) i \<noteq> None"
  using assms(2)
proof (induction ps rule: rev_induct)
  case (snoc x ps)
  obtain rnd p where x: "x = (rnd, p)" by (cases x)
  obtain pk vk where "circuit_specific_setup g rnd (generate_constraints \<lparr>circuit_values = [42, 100]\<rparr>) = Inr (pk, vk)"
    using assms(1) by (metis prod.collapse)
  then show ?case
    using snoc by (auto simp: x register_policy_keys policy_in_force_def)
qed (simp add: policy_in_force_def)

lemma fallback_nonempty: "fallback_bytes gen pid trace e \<noteq> []"
  using length_le_bytes[of 8 "proof_count gen + 1"] by (auto simp: fallback_bytes_def simp del: length_le_bytes)

section \<open>Properties\<close>

text \<open>C4: The evaluator decides the meaning of a policy: for an action that has the fields a
  well-posed list of constraints names, \<open>verify_constraints\<close> never fails and answers exactly whether
  all constraints hold of the exact integers, nested \<open>And\<close> and \<open>Or\<close> included; floating-point
  casts, subtraction and comparison make no difference.\<close>

theorem verify_constraints_exact:
  assumes "list_all (\<lambda>c. well_posed c (numeric_values a)) cs"
  shows "verify_constraints cs a = Inr (list_all (\<lambda>c. meets c (numeric_values a)) cs)"
  by (rule verify_constraints_meets[OF assms])

definition speed_policy :: safety_policy where
  "speed_policy = \<lparr>policy_id = ''safety-001'', description = ''Speed limit enforcement'',
     circuit_constraints = [Range ''speed'' 0 120,
       Or [Threshold ''risk'' ''<'' (f64_lit 50), Threshold ''speed'' ''=='' (f64_lit 0)]]\<rparr>"

definition cruise :: "i64 \<Rightarrow> action_data" where
  "cruise risk = with_numeric (with_numeric (action_new ''MAINTAIN_COURSE'') ''speed'' 85) ''risk'' risk"

lemma speed_policy_posed:
  assumes "\<bar>sint risk\<bar> \<le> 2 ^ 53"
  shows "list_all (\<lambda>c. well_posed c (numeric_values (cruise risk))) (circuit_constraints speed_policy)"
proof -
  have "fp_in binary64 (f64_lit 50)" "fp_in binary64 (f64_lit 0)"
    by (simp_all add: fp_in_small)
  then show ?thesis
    using assms by (simp add: speed_policy_def cruise_def with_numeric_def action_new_def operators_def)
qed

theorem verify_constraints_exact_witness:
  "verify_constraints (circuit_constraints speed_policy) (cruise 75) = Inr False
   \<and> verify_constraints (circuit_constraints speed_policy) (cruise 10) = Inr True"
  using verify_constraints_exact[OF speed_policy_posed[of 75]] verify_constraints_exact[OF speed_policy_posed[of 10]]
  by (simp add: speed_policy_def cruise_def with_numeric_def action_new_def meets_op_def within_epsilon_def)

lemma rounded_magnitude:
  assumes "2 \<le> \<bar>n\<bar>" and "fround binary64 (of_int n) = of_int z"
  shows "2 \<le> \<bar>z\<bar>"
proof -
  have r: "fround binary64 2 = 2" "fround binary64 (- 2) = - 2"
    using fround_minus[of binary64 2] by simp_all
  from assms(1) consider "2 \<le> n" | "n \<le> - 2" by linarith
  then show ?thesis
  proof cases
    case 1
    then have "(of_int 2 :: rat) \<le> of_int n" by (simp only: of_int_le_iff)
    then have "(2 :: rat) \<le> of_int n" by simp
    from fround_ge_rep[OF _ r(1) this] have "(2 :: rat) \<le> of_int z" using assms(2) by simp
    then have "(of_int 2 :: rat) \<le> of_int z" by simp
    then have "2 \<le> z" by (simp only: of_int_le_iff)
    then show ?thesis by simp
  next
    case 2
    then have "(of_int n :: rat) \<le> of_int (- 2)" by (simp only: of_int_le_iff)
    then have "of_int n \<le> (- 2 :: rat)" by simp
    from fround_le_rep[OF _ r(2) this] have "of_int z \<le> (- 2 :: rat)" using assms(2) by simp
    then have "(of_int z :: rat) \<le> of_int (- 2)" by simp
    then have "z \<le> - 2" by (simp only: of_int_le_iff)
    then show ?thesis by simp
  qed
qed

lemma above_limit: "f64_of_int 9007199254740993 = Fin 9007199254740992"
proof -
  have "rexp 9007199254740993 < 54" by (rule rexp_less) (simp_all add: power_int_def)
  moreover have "53 \<le> rexp 9007199254740993" by (rule rexp_ge) (simp add: power_int_def)
  ultimately have "ulp_exp binary64 9007199254740993 = 1" by (simp add: ulp_exp_def)
  moreover have "\<lfloor>9007199254740993 / 2 :: rat\<rfloor> = 4503599627370496" by (simp add: floor_eq_iff)
  ultimately have "fround binary64 9007199254740993 = 9007199254740992"
    by (simp add: fround_def rne_def Let_def)
  then show ?thesis using f64_of_int_Fin[of 9007199254740993] by simp
qed

text \<open>C23: For every \<^verbatim>\<open>i64\<close>, the rounding of the cast errs on one side only: a strict comparison that is
  accepted holds exactly, and a non-strict one that holds exactly is accepted; \<open>==\<close> from magnitude
  2 on is equality with the rounded integer. The other side is lost beyond \<open>2 ^ 53\<close>: an upper
  limit of \<open>2 ^ 53\<close> accepts \<open>2 ^ 53 + 1\<close>.\<close>

theorem threshold_rounding:
  assumes "fp_in binary64 v"
  shows "(check_threshold ''>'' n v = Inr True \<longrightarrow> v < Fin (of_int (sint n)))
    \<and> (check_threshold ''<'' n v = Inr True \<longrightarrow> Fin (of_int (sint n)) < v)
    \<and> (v \<le> Fin (of_int (sint n)) \<longrightarrow> check_threshold ''>='' n v = Inr True)
    \<and> (Fin (of_int (sint n)) \<le> v \<longrightarrow> check_threshold ''<='' n v = Inr True)
    \<and> (2 \<le> \<bar>sint n\<bar> \<longrightarrow> (check_threshold ''=='' n v = Inr True \<longleftrightarrow> v = f64_of_int (sint n)))
    \<and> check_threshold ''<='' (2 ^ 53 + 1) (f64_lit (2 ^ 53)) = Inr True"
proof (intro conjI impI)
  have n: "\<bar>sint n\<bar> \<le> 2 ^ 63"
    using sint_greater_eq[of n] sint_less[of n] by simp
  note ops = check_threshold_def Let_def f64_cast_less[OF n assms] f64_cast_le[OF n assms]
  show "check_threshold ''>'' n v = Inr True \<Longrightarrow> v < Fin (of_int (sint n))"
    "check_threshold ''<'' n v = Inr True \<Longrightarrow> Fin (of_int (sint n)) < v"
    "v \<le> Fin (of_int (sint n)) \<Longrightarrow> check_threshold ''>='' n v = Inr True"
    "Fin (of_int (sint n)) \<le> v \<Longrightarrow> check_threshold ''<='' n v = Inr True"
    by (simp_all add: ops del: of_int_sint)
  show "check_threshold ''=='' n v = Inr True \<longleftrightarrow> v = f64_of_int (sint n)" if "2 \<le> \<bar>sint n\<bar>"
  proof -
    obtain z where z: "fround binary64 (of_int (sint n)) = of_int z" using fround64_int_form by blast
    have "2 \<le> \<bar>z\<bar>" by (rule rounded_magnitude[OF that z])
    then have "within_epsilon z v \<longleftrightarrow> v = Fin (of_int z)"
      using assms fround64_near_eq[of _ z]
      by (cases v) (auto simp: within_epsilon_def fp_in_def simp del: power_one_over)
    then show ?thesis
      using sub_less_epsilon[OF assms, of z]
      by (simp add: check_threshold_def f64_of_int_Fin[OF n] z del: of_int_sint)
  qed
  show "check_threshold ''<='' (2 ^ 53 + 1) (f64_lit (2 ^ 53)) = Inr True"
    by (simp add: check_threshold_def above_limit)
qed

theorem threshold_rounding_witness:
  "check_threshold ''=='' 3 (f64_lit 3) = Inr True \<and> check_threshold ''=='' 3 (f64_lit 4) \<noteq> Inr True"
proof -
  have "fp_in binary64 (f64_lit 3)" "fp_in binary64 (f64_lit 4)" by (simp_all add: fp_in_small)
  from threshold_rounding[OF this(1), of 3] threshold_rounding[OF this(2), of 3] show ?thesis
    by (simp add: f64_of_int_exact)
qed

text \<open>The constraints of a policy are tried in order and the first one that is not satisfied decides:
  with its error, or with a refusal. Constraints after it are not evaluated, so their missing fields
  or bad operators go unnoticed.\<close>

lemma first_unsatisfied_decides:
  "(verify_constraints cs a = Inr True \<longleftrightarrow> list_all (\<lambda>c. check_constraint c a = Inr True) cs)
   \<and> (verify_constraints cs a = Inr False \<longleftrightarrow> (\<exists>pre c post. cs = pre @ c # post
        \<and> list_all (\<lambda>c. check_constraint c a = Inr True) pre \<and> check_constraint c a = Inr False))
   \<and> (verify_constraints cs a = Inl e \<longleftrightarrow> (\<exists>pre c post. cs = pre @ c # post
        \<and> list_all (\<lambda>c. check_constraint c a = Inr True) pre \<and> check_constraint c a = Inl e))"
  unfolding verify_constraints_def
  by (intro conjI try_all_True try_all_decisive) simp_all

definition demo_groth16 :: "(int, unit, unit, bytes) groth16" where
  "demo_groth16 = \<lparr>circuit_specific_setup = (\<lambda>_ _. Inr ((), ())), prove = (\<lambda>_ _ _. Inr [1]),
     vk_debug = (\<lambda>_. ''vk''), a_x = (\<lambda>p. 1 # p), a_y = id, b_x_c0 = id, b_x_c1 = id, b_y_c0 = id,
     b_y_c1 = id, c_x = id, c_y = id\<rparr>"

text \<open>C10: When setup succeeds and the policy in force is well posed for the action, a proof is generated
  exactly when the action meets all its constraints, and is refused as a violation otherwise; a
  generated proof names the policy and the trace, and the verifier accepts it with all constraints
  counted as satisfied.\<close>

theorem proof_iff_policy_met:
  assumes "\<forall>rnd. \<exists>k. circuit_specific_setup g rnd (generate_constraints \<lparr>circuit_values = [42, 100]\<rparr>) = Inr k"
    and "\<forall>p. a_x g p \<noteq> []"
    and "policy_in_force ps pid = Some policy"
    and "list_all (\<lambda>c. well_posed c (numeric_values a)) (circuit_constraints policy)"
    and "gen = register_all sha256 g ps"
  shows "if list_all (\<lambda>c. meets c (numeric_values a)) (circuit_constraints policy)
    then \<exists>proof r. generate_proof sha256 g rnd iter gen pid a trace now = Inr proof
      \<and> zp_policy_id proof = pid \<and> verify_proof gen proof = Inr r \<and> valid r
      \<and> execution_trace_hash r = show_hex (sha256 trace)
      \<and> satisfied_constraints r = usize_len (circuit_constraints policy)
    else generate_proof sha256 g rnd iter gen pid a trace now = Inl ConstraintViolation"
proof -
  have l: "Mapping.lookup (policies gen) pid = Some policy"
    using assms(3,5) by (simp add: register_all_state)
  obtain sk where k: "Mapping.lookup (setup_keys gen) pid = Some sk"
    using register_all_keys[OF assms(1), of ps pid sha256] assms(3,5) by auto
  have v: "verify_constraints (circuit_constraints policy) a
      = Inr (list_all (\<lambda>c. meets c (numeric_values a)) (circuit_constraints policy))"
    using assms(4) by (rule verify_constraints_meets)
  show ?thesis
    using l k v assms(2) fallback_nonempty[of gen pid trace]
    by (auto simp: generate_proof_def verify_proof_def Let_def serialize_proof_def split: sum.splits)
qed

theorem proof_iff_policy_met_witness:
  "(\<exists>proof. generate_proof id demo_groth16 0 (\<lambda>_. []) (register_all id demo_groth16 [(0, speed_policy)])
      ''safety-001'' (cruise 10) [9] 5 = Inr proof)
   \<and> generate_proof id demo_groth16 0 (\<lambda>_. []) (register_all id demo_groth16 [(0, speed_policy)])
      ''safety-001'' (cruise 75) [9] 5 = Inl ConstraintViolation"
proof -
  have g: "\<forall>rnd. \<exists>k. circuit_specific_setup demo_groth16 rnd (generate_constraints \<lparr>circuit_values = [42, 100]\<rparr>) = Inr k" "\<forall>p. a_x demo_groth16 p \<noteq> []"
    by (simp_all add: demo_groth16_def)
  have f: "policy_in_force [(0, speed_policy)] ''safety-001'' = Some speed_policy"
    by (simp add: policy_in_force_def speed_policy_def)
  have "list_all (\<lambda>c. meets c (numeric_values (cruise 10))) (circuit_constraints speed_policy)"
    "\<not> list_all (\<lambda>c. meets c (numeric_values (cruise 75))) (circuit_constraints speed_policy)"
    by (simp_all add: speed_policy_def cruise_def with_numeric_def action_new_def meets_op_def within_epsilon_def)
  then show ?thesis
    using proof_iff_policy_met[OF g f speed_policy_posed refl, of 10 id 0 "\<lambda>_. []" "[9]" 5]
      proof_iff_policy_met[OF g f speed_policy_posed refl, of 75 id 0 "\<lambda>_. []" "[9]" 5] by auto
qed

text \<open>C32: The verifier does not check the proof: a policy that no action satisfies has no generated proof,
  yet any nonempty bytes with any public input are accepted for it, with every constraint
  reported as satisfied.\<close>

theorem forged_proof_accepted:
  assumes "Mapping.lookup (policies gen) pid = Some policy"
    and "\<forall>a. verify_constraints (circuit_constraints policy) a \<noteq> Inr True"
  shows "(\<nexists>proof. generate_proof sha256 g rnd iter gen pid a trace now = Inr proof)
    \<and> (\<exists>r. verify_proof gen \<lparr>zp_proof_id = i, zp_policy_id = pid, proof_bytes = b # bs,
             public_inputs = h # hs, verification_key_hash = vh, zp_timestamp = ts\<rparr> = Inr r
         \<and> valid r \<and> execution_trace_hash r = h
         \<and> satisfied_constraints r = total_constraints r)"
  using assms
  by (auto simp: generate_proof_def verify_proof_def Let_def split: option.splits sum.splits if_splits)

definition closed_policy :: safety_policy where
  "closed_policy = \<lparr>policy_id = ''p'', description = '''', circuit_constraints = [Or []]\<rparr>"

theorem forged_proof_accepted_witness:
  "\<exists>r. verify_proof (register_all id demo_groth16 [(0, closed_policy)])
     \<lparr>zp_proof_id = ''forged'', zp_policy_id = ''p'', proof_bytes = [0], public_inputs = [''trace''],
      verification_key_hash = '''', zp_timestamp = 0\<rparr> = Inr r \<and> valid r"
proof -
  have "Mapping.lookup (policies (register_all id demo_groth16 [(0, closed_policy)])) ''p'' = Some closed_policy"
    by (simp add: register_all_state policy_in_force_def closed_policy_def)
  moreover have "\<forall>a. verify_constraints (circuit_constraints closed_policy) a \<noteq> Inr True"
    by (simp add: verify_constraints_def closed_policy_def)
  ultimately show ?thesis
    using forged_proof_accepted[of _ "''p''" closed_policy id demo_groth16 0 "\<lambda>_. []" "cruise 0" "[]" 0 "''forged''" 0 "[]" "''trace''" "[]"]
    by blast
qed

text \<open>Proof identifiers do not identify: every proof of every generator built by registering policies is
  called \<open>zk-proof-1\<close>, since the proof counter never moves. The policies are counted by distinct
  identifier.\<close>

lemma proof_ids_constant:
  assumes "gen = register_all sha256 g ps"
  shows "(\<forall>proof. generate_proof sha256 g rnd iter gen pid a trace now = Inr proof
        \<longrightarrow> zp_proof_id proof = ''zk-proof-1'')
    \<and> policy_count gen = of_nat (card ((\<lambda>(_, p). policy_id p) ` set ps))"
proof -
  have "show_word (1 :: u64) = ''1''" by code_simp
  then show ?thesis
    using assms register_all_state(1,3)[of sha256 g ps]
    by (auto elim!: generate_proof_Inr simp: policy_count_def Mapping.size_def)
qed

definition r1cs_satisfied :: "('f::comm_ring_1) r1cs \<Rightarrow> bool" where
  "r1cs_satisfied cs \<longleftrightarrow> list_all (\<lambda>(x, y, z). x < length (inputs cs) \<and> y < length (inputs cs)
     \<and> z < length (inputs cs) \<and> inputs cs ! x * inputs cs ! y = inputs cs ! z) (r1cs_constraints cs)"

lemma allocate_values_satisfied:
  "r1cs_satisfied cs \<Longrightarrow> k < length (inputs cs) \<Longrightarrow> inputs cs ! k = 1
    \<Longrightarrow> r1cs_satisfied (allocate_values k vs cs)"
proof (induction k vs cs rule: allocate_values.induct)
  case (2 k v vs cs)
  obtain cs1 x where 1: "new_input_variable cs (of_nat (unat v)) = (cs1, x)" by fastforce
  obtain cs2 y where 3: "new_input_variable cs1 (of_nat (unat v)) = (cs2, y)" by fastforce
  have i: "inputs cs2 = inputs cs @ [of_nat (unat v), of_nat (unat v)]" "x = length (inputs cs)"
    "y = Suc (length (inputs cs))" "r1cs_constraints cs2 = r1cs_constraints cs"
    using 1 3 by (auto simp: new_input_variable_def)
  have "r1cs_satisfied (enforce cs2 x k y)"
    using 2(2-4) by (fastforce simp: r1cs_satisfied_def enforce_def i list_all_iff nth_append)
  moreover have "inputs (enforce cs2 x k y) ! k = 1" "k < length (inputs (enforce cs2 x k y))"
    using 2(3,4) by (simp_all add: enforce_def i nth_append)
  ultimately show ?case using 2(1)[OF 1[symmetric] refl 3[symmetric] refl] 1 3 by simp
qed simp

lemma allocate_values_length: "length (inputs (allocate_values k vs cs)) = length (inputs cs) + 2 * length vs"
  by (induction k vs cs rule: allocate_values.induct) (auto simp: new_input_variable_def enforce_def)

text \<open>C37: The circuit proves nothing about the policy: its constraints hold for every assignment of values,
  and its shape is that of the circuit the keys are set up for exactly when there are two values.\<close>

theorem circuit_trivial:
  "list_all (\<lambda>(x, y, z). inputs (generate_constraints circuit :: ('f::comm_ring_1) r1cs) ! x
        * inputs (generate_constraints circuit) ! y = inputs (generate_constraints circuit) ! z)
      (r1cs_constraints (generate_constraints circuit :: 'f r1cs))
    \<and> (length (inputs (generate_constraints circuit :: 'f r1cs))
          = length (inputs (generate_constraints \<lparr>circuit_values = [42, 100]\<rparr> :: 'f r1cs))
        \<longleftrightarrow> length (circuit_values circuit) = 2)"
proof -
  let ?e = "\<lparr>inputs = [1], r1cs_constraints = []\<rparr> :: 'f r1cs"
  have "generate_constraints c = allocate_values 0 (circuit_values c) ?e" for c :: policy_circuit
    by (simp add: generate_constraints_def new_input_variable_def)
  moreover have "r1cs_satisfied (allocate_values 0 (circuit_values circuit) ?e)"
    by (rule allocate_values_satisfied) (simp_all add: r1cs_satisfied_def)
  ultimately show ?thesis
    by (auto simp: r1cs_satisfied_def list_all_iff allocate_values_length simp del: allocate_values.simps)
qed

lemma log_entry_line:
  assumes "CHR 0x0A \<notin> set (zp_proof_id p @ zp_policy_id p @ verification_key_hash p)"
  shows "CHR 0x0A \<notin> set (log_entry p)" "last (log_entry p) \<noteq> CHR 0x0D" "log_entry p \<noteq> []"
proof -
  have d: "list_all is_digit (show_word (zp_timestamp p))" by (rule show_word_digits)
  have n: "show_word (zp_timestamp p) \<noteq> []" by (simp add: show_word_def)
  have "CHR 0x0A \<notin> set (show_word (zp_timestamp p))"
    using d by (auto simp: list_all_iff is_digit_def)
  then show "CHR 0x0A \<notin> set (log_entry p)" using assms by (auto simp: log_entry_def)
  have "is_digit (last (show_word (zp_timestamp p)))" using d n by (simp add: list_all_iff)
  then show "last (log_entry p) \<noteq> CHR 0x0D" using n by (auto simp: log_entry_def is_digit_def)
  show "log_entry p \<noteq> []" by (simp add: log_entry_def)
qed

text \<open>The exported log reads back: split into lines it gives one entry per proof, in order, when the
  identifiers and key hashes contain no newline.\<close>

lemma exported_log_lines:
  assumes "list_all (\<lambda>p. CHR 0x0A \<notin> set (zp_proof_id p @ zp_policy_id p @ verification_key_hash p)) proofs"
  shows "str_lines (string_of_bytes (export_execution_log proofs)) = map log_entry proofs"
  using assms
proof (induction proofs)
  case (Cons p ps)
  note line = log_entry_line[of p]
  have "string_of_bytes (export_execution_log (p # ps)) = log_entry p @ CHR 0x0A # string_of_bytes (export_execution_log ps)"
    by simp
  then show ?case using Cons line by (simp add: str_lines_line)
qed (simp add: str_lines_def string_of_bytes_def)

end
