(* ===== verification/Helpers.thy ===== *)
theory Helpers
  imports Common
begin

text \<open>
  The crate \<^verbatim>\<open>helpers\<close>: the zero-copy buffer with its two cursors (\<^verbatim>\<open>lib.rs\<close>), the builders
  (\<^verbatim>\<open>builders.rs\<close>) and the fixtures built with them (\<^verbatim>\<open>fixtures.rs\<close>). The buffer is refined to a byte
  queue as long as no cursor arithmetic wraps around, and shown to break when it does.
\<close>

section \<open>The zero-copy buffer\<close>

datatype helper_error =
    InvalidConfig string
  | BufferError string
  | MetricsError string

fun show_helper_error :: "helper_error \<Rightarrow> string" where
  "show_helper_error (InvalidConfig s) = ''Invalid configuration: '' @ s"
| "show_helper_error (BufferError s) = ''Buffer operation failed: '' @ s"
| "show_helper_error (MetricsError s) = ''Metrics error: '' @ s"

record zero_copy_buffer =
  zb_data :: bytes
  zb_capacity :: usize
  read_pos :: usize
  write_pos :: usize

text \<open>\<^verbatim>\<open>vec![0u8; capacity]\<close> panics for more bytes than a vector can hold.\<close>

definition with_capacity :: "usize \<Rightarrow> panic + zero_copy_buffer" where
  "with_capacity capacity =
     (if unat capacity > isize_max then Inl Capacity_Overflow
      else Inr \<lparr>zb_data = replicate (unat capacity) 0, zb_capacity = capacity, read_pos = 0, write_pos = 0\<rparr>)"

definition zb_default :: "panic + zero_copy_buffer" where
  "zb_default = with_capacity 65536"

text \<open>The slice from the write cursor, and the buffer after its holder stored bytes at its start.\<close>

definition write_slice :: "zero_copy_buffer \<Rightarrow> panic + bytes" where
  "write_slice b = (if unat (write_pos b) > length (zb_data b) then Inl Slice_Out_Of_Range
     else Inr (drop (unat (write_pos b)) (zb_data b)))"

definition store_in_slice :: "zero_copy_buffer \<Rightarrow> bytes \<Rightarrow> zero_copy_buffer" where
  "store_in_slice b bs =
     b\<lparr>zb_data := take (unat (write_pos b)) (zb_data b) @ bs
        @ drop (unat (write_pos b) + length bs) (zb_data b)\<rparr>"

definition read_slice :: "zero_copy_buffer \<Rightarrow> panic + bytes" where
  "read_slice b =
     (if read_pos b > write_pos b \<or> unat (write_pos b) > length (zb_data b) then Inl Slice_Out_Of_Range
      else Inr (drop (unat (read_pos b)) (take (unat (write_pos b)) (zb_data b))))"

definition advance_write :: "zero_copy_buffer \<Rightarrow> usize \<Rightarrow> zero_copy_buffer \<times> (helper_error + unit)" where
  "advance_write b count =
     (if write_pos b + count > zb_capacity b
      then (b, Inl (BufferError ''Write would exceed buffer capacity''))
      else (b\<lparr>write_pos := write_pos b + count\<rparr>, Inr ()))"

definition advance_read :: "zero_copy_buffer \<Rightarrow> usize \<Rightarrow> zero_copy_buffer \<times> (helper_error + unit)" where
  "advance_read b count =
     (if read_pos b + count > write_pos b
      then (b, Inl (BufferError ''Read would exceed written data''))
      else (b\<lparr>read_pos := read_pos b + count\<rparr>, Inr ()))"

definition zb_reset :: "zero_copy_buffer \<Rightarrow> zero_copy_buffer" where
  "zb_reset b = b\<lparr>read_pos := 0, write_pos := 0\<rparr>"

definition write_available :: "zero_copy_buffer \<Rightarrow> usize" where
  "write_available b = zb_capacity b - write_pos b"

definition read_available :: "zero_copy_buffer \<Rightarrow> usize" where
  "read_available b = write_pos b - read_pos b"

section \<open>Builders\<close>

record frame_builder =
  fb_frame_id :: "u64 option"
  fb_source_ip :: "string option"
  fb_dest_ip :: "string option"
  fb_timestamp_ns :: "u64 option"
  fb_payload :: "bytes option"
  fb_metadata :: "frame_metadata option"

definition frame_builder_new :: frame_builder where
  "frame_builder_new = \<lparr>fb_frame_id = None, fb_source_ip = None, fb_dest_ip = None,
     fb_timestamp_ns = None, fb_payload = None, fb_metadata = None\<rparr>"

definition with_frame_id :: "frame_builder \<Rightarrow> u64 \<Rightarrow> frame_builder" where
  "with_frame_id b i = b\<lparr>fb_frame_id := Some i\<rparr>"

definition with_source_ip :: "frame_builder \<Rightarrow> string \<Rightarrow> frame_builder" where
  "with_source_ip b ip = b\<lparr>fb_source_ip := Some ip\<rparr>"

definition with_dest_ip :: "frame_builder \<Rightarrow> string \<Rightarrow> frame_builder" where
  "with_dest_ip b ip = b\<lparr>fb_dest_ip := Some ip\<rparr>"

definition with_timestamp_ns :: "frame_builder \<Rightarrow> u64 \<Rightarrow> frame_builder" where
  "with_timestamp_ns b ts = b\<lparr>fb_timestamp_ns := Some ts\<rparr>"

definition with_payload :: "frame_builder \<Rightarrow> bytes \<Rightarrow> frame_builder" where
  "with_payload b bs = b\<lparr>fb_payload := Some bs\<rparr>"

definition with_payload_str :: "frame_builder \<Rightarrow> string \<Rightarrow> frame_builder" where
  "with_payload_str b s = b\<lparr>fb_payload := Some (as_bytes s)\<rparr>"

definition with_metadata :: "frame_builder \<Rightarrow> frame_metadata \<Rightarrow> frame_builder" where
  "with_metadata b m = b\<lparr>fb_metadata := Some m\<rparr>"

definition or_default :: "'a option \<Rightarrow> 'a \<Rightarrow> 'a" where
  "or_default x d = (case x of None \<Rightarrow> d | Some y \<Rightarrow> y)"

definition frame_build :: "frame_builder \<Rightarrow> string + telemetry_frame" where
  "frame_build b = Inr
     \<lparr>frame_id = or_default (fb_frame_id b) 0, source_ip = or_default (fb_source_ip b) ''0.0.0.0'',
      dest_ip = fb_dest_ip b, timestamp_ns = or_default (fb_timestamp_ns b) 0,
      payload = or_default (fb_payload b) [], metadata = or_default (fb_metadata b) default_metadata\<rparr>"

record quality_builder =
  qb_latency_ms :: "f64 option"
  qb_packet_loss_pct :: "f64 option"
  qb_jitter_ms :: "f64 option"
  qb_bandwidth_mbps :: "f64 option"
  qb_measured_at :: "u64 option"

definition quality_builder_new :: quality_builder where
  "quality_builder_new = \<lparr>qb_latency_ms = None, qb_packet_loss_pct = None, qb_jitter_ms = None,
     qb_bandwidth_mbps = None, qb_measured_at = None\<rparr>"

definition with_latency_ms :: "quality_builder \<Rightarrow> f64 \<Rightarrow> quality_builder" where
  "with_latency_ms b x = b\<lparr>qb_latency_ms := Some x\<rparr>"

definition with_packet_loss_pct :: "quality_builder \<Rightarrow> f64 \<Rightarrow> quality_builder" where
  "with_packet_loss_pct b x = b\<lparr>qb_packet_loss_pct := Some x\<rparr>"

definition with_jitter_ms :: "quality_builder \<Rightarrow> f64 \<Rightarrow> quality_builder" where
  "with_jitter_ms b x = b\<lparr>qb_jitter_ms := Some x\<rparr>"

definition with_bandwidth_mbps :: "quality_builder \<Rightarrow> f64 \<Rightarrow> quality_builder" where
  "with_bandwidth_mbps b x = b\<lparr>qb_bandwidth_mbps := Some x\<rparr>"

definition with_measured_at :: "quality_builder \<Rightarrow> u64 \<Rightarrow> quality_builder" where
  "with_measured_at b ts = b\<lparr>qb_measured_at := Some ts\<rparr>"

definition quality_build :: "quality_builder \<Rightarrow> network_quality" where
  "quality_build b =
     \<lparr>latency_ms = or_default (qb_latency_ms b) (f64_lit 0),
      packet_loss_pct = or_default (qb_packet_loss_pct b) (f64_lit 0),
      jitter_ms = or_default (qb_jitter_ms b) (f64_lit 0),
      bandwidth_mbps = or_default (qb_bandwidth_mbps b) (f64_lit 0),
      measured_at = or_default (qb_measured_at b) 0\<rparr>"

definition quality_excellent :: network_quality where
  "quality_excellent = quality_build (with_bandwidth_mbps (with_jitter_ms (with_packet_loss_pct
     (with_latency_ms quality_builder_new (f64_lit 10)) (f64_lit (1 / 10))) (f64_lit 2)) (f64_lit 1000))"

definition quality_degraded :: network_quality where
  "quality_degraded = quality_build (with_bandwidth_mbps (with_jitter_ms (with_packet_loss_pct
     (with_latency_ms quality_builder_new (f64_lit 250)) (f64_lit 6)) (f64_lit 60)) (f64_lit 50))"

definition quality_offline :: network_quality where
  "quality_offline = quality_build (with_bandwidth_mbps (with_jitter_ms (with_packet_loss_pct
     (with_latency_ms quality_builder_new (f64_lit 10000)) (f64_lit 100)) (f64_lit 0)) (f64_lit 0))"

record metadata_builder =
  mb_latency_ms :: "f64 option"
  mb_packet_loss_pct :: "f64 option"
  mb_jitter_ms :: "f64 option"
  mb_agent_mode :: "string option"
  mb_session_id :: "string option"

definition metadata_builder_new :: metadata_builder where
  "metadata_builder_new = \<lparr>mb_latency_ms = None, mb_packet_loss_pct = None, mb_jitter_ms = None,
     mb_agent_mode = None, mb_session_id = None\<rparr>"

definition meta_with_latency_ms :: "metadata_builder \<Rightarrow> f64 \<Rightarrow> metadata_builder" where
  "meta_with_latency_ms b x = b\<lparr>mb_latency_ms := Some x\<rparr>"

definition meta_with_packet_loss_pct :: "metadata_builder \<Rightarrow> f64 \<Rightarrow> metadata_builder" where
  "meta_with_packet_loss_pct b x = b\<lparr>mb_packet_loss_pct := Some x\<rparr>"

definition meta_with_jitter_ms :: "metadata_builder \<Rightarrow> f64 \<Rightarrow> metadata_builder" where
  "meta_with_jitter_ms b x = b\<lparr>mb_jitter_ms := Some x\<rparr>"

definition meta_with_agent_mode :: "metadata_builder \<Rightarrow> agent_mode \<Rightarrow> metadata_builder" where
  "meta_with_agent_mode b m = b\<lparr>mb_agent_mode := Some (debug_mode m)\<rparr>"

definition meta_with_session_id :: "metadata_builder \<Rightarrow> string \<Rightarrow> metadata_builder" where
  "meta_with_session_id b i = b\<lparr>mb_session_id := Some i\<rparr>"

definition metadata_build :: "metadata_builder \<Rightarrow> frame_metadata" where
  "metadata_build b = \<lparr>fm_latency_ms = mb_latency_ms b, fm_packet_loss_pct = mb_packet_loss_pct b,
     fm_jitter_ms = mb_jitter_ms b, fm_agent_mode = mb_agent_mode b, fm_session_id = mb_session_id b\<rparr>"

section \<open>Fixtures\<close>

text \<open>\<^verbatim>\<open>unwrap\<close> of what \<^verbatim>\<open>build\<close> returns.\<close>

definition unwrap_frame :: "string + telemetry_frame \<Rightarrow> panic + telemetry_frame" where
  "unwrap_frame r = (case r of Inl _ \<Rightarrow> Inl Unwrap_On_Error | Inr f \<Rightarrow> Inr f)"

definition sample_frame :: "panic + telemetry_frame" where
  "sample_frame = unwrap_frame (frame_build (with_payload_str (with_source_ip
     (with_frame_id frame_builder_new 1) ''192.168.1.100'') ''sample telemetry data''))"

definition sample_frame_with_id :: "u64 \<Rightarrow> panic + telemetry_frame" where
  "sample_frame_with_id i = unwrap_frame (frame_build (with_payload_str (with_source_ip
     (with_frame_id frame_builder_new i) ''192.168.1.100'') (''telemetry frame '' @ show_word i)))"

text \<open>The first panic, or all the frames.\<close>

fun collect_frames :: "(panic + telemetry_frame) list \<Rightarrow> panic + telemetry_frame list" where
  "collect_frames [] = Inr []"
| "collect_frames (Inl p # rs) = Inl p"
| "collect_frames (Inr f # rs) = (case collect_frames rs of Inl p \<Rightarrow> Inl p | Inr fs \<Rightarrow> Inr (f # fs))"

definition sample_frames :: "u64 \<Rightarrow> panic + telemetry_frame list" where
  "sample_frames count = collect_frames (map (\<lambda>i. sample_frame_with_id (of_nat i)) [1..<Suc (unat count)])"

definition excellent_network :: network_quality where
  "excellent_network = quality_excellent"

definition degraded_network :: network_quality where
  "degraded_network = quality_degraded"

definition offline_network :: network_quality where
  "offline_network = quality_offline"

definition sample_metadata :: frame_metadata where
  "sample_metadata = \<lparr>fm_latency_ms = Some (f64_lit 45), fm_packet_loss_pct = Some (f64_lit (1 / 2)),
     fm_jitter_ms = Some (f64_lit 5), fm_agent_mode = Some ''online'',
     fm_session_id = Some ''test-session-123''\<rparr>"

definition metadata_for_mode :: "agent_mode \<Rightarrow> frame_metadata" where
  "metadata_for_mode m = \<lparr>fm_latency_ms = Some (f64_lit 50), fm_packet_loss_pct = Some (f64_lit 1),
     fm_jitter_ms = Some (f64_lit 10), fm_agent_mode = Some (debug_mode m),
     fm_session_id = Some ''test-session''\<rparr>"

definition frame_with_quality :: "u64 \<Rightarrow> network_quality \<Rightarrow> panic + telemetry_frame" where
  "frame_with_quality i q =
     (let m = \<lparr>fm_latency_ms = Some (latency_ms q), fm_packet_loss_pct = Some (packet_loss_pct q),
               fm_jitter_ms = Some (jitter_ms q), fm_agent_mode = None,
               fm_session_id = Some (''session-'' @ show_word i)\<rparr>
      in unwrap_frame (frame_build (with_metadata (with_payload_str (with_source_ip
           (with_frame_id frame_builder_new i) ''192.168.1.100'') (''frame '' @ show_word i @ '' data'')) m)))"

section \<open>The buffer as a byte queue\<close>

definition zb_inv :: "zero_copy_buffer \<Rightarrow> bool" where
  "zb_inv b \<longleftrightarrow> read_pos b \<le> write_pos b \<and> write_pos b \<le> zb_capacity b
     \<and> length (zb_data b) = unat (zb_capacity b) \<and> length (zb_data b) \<le> isize_max"

text \<open>What is written and not yet read.\<close>

definition zb_queue :: "zero_copy_buffer \<Rightarrow> bytes" where
  "zb_queue b = drop (unat (read_pos b)) (take (unat (write_pos b)) (zb_data b))"

text \<open>A client stores bytes in the slice and advances, or reads the slice and advances.\<close>

datatype queue_op = Feed bytes | Drain usize

text \<open>The client's step: what it moved through the buffer, or \<open>None\<close> when a call refused or panicked.\<close>

fun queue_step :: "zero_copy_buffer \<Rightarrow> queue_op \<Rightarrow> (zero_copy_buffer \<times> bytes) option" where
  "queue_step b (Feed bs) =
     (case write_slice b of
        Inl _ \<Rightarrow> None
      | Inr room \<Rightarrow> if length bs > length room then None
          else (case advance_write (store_in_slice b bs) (usize_len bs) of
                  (_, Inl _) \<Rightarrow> None
                | (b', Inr _) \<Rightarrow> Some (b', bs)))"
| "queue_step b (Drain n) =
     (case read_slice b of
        Inl _ \<Rightarrow> None
      | Inr avail \<Rightarrow> (case advance_read b n of
          (_, Inl _) \<Rightarrow> None
        | (b', Inr _) \<Rightarrow> Some (b', take (unat n) avail)))"

fun is_feed :: "queue_op \<Rightarrow> bool" where
  "is_feed (Feed _) = True"
| "is_feed (Drain _) = False"

text \<open>A run logs the bytes fed and the bytes drained; steps that fail leave the buffer as it is.\<close>

fun queue_run :: "('b \<Rightarrow> queue_op \<Rightarrow> ('b \<times> bytes) option) \<Rightarrow> 'b \<Rightarrow> queue_op list \<Rightarrow> 'b \<times> bytes \<times> bytes" where
  "queue_run step b [] = (b, [], [])"
| "queue_run step b (op # ops) =
     (case step b op of
        None \<Rightarrow> queue_run step b ops
      | Some (b', bs) \<Rightarrow> (case queue_run step b' ops of (b'', fed, drained) \<Rightarrow>
          (b'', if is_feed op then bs @ fed else fed, if is_feed op then drained else bs @ drained)))"

text \<open>A byte queue: feeding appends, draining takes from the front.\<close>

locale byte_queue =
  fixes step :: "'b \<Rightarrow> queue_op \<Rightarrow> ('b \<times> bytes) option" and contents :: "'b \<Rightarrow> bytes"
    and inv :: "'b \<Rightarrow> bool" and ok :: "queue_op \<Rightarrow> bool"
  assumes step_inv: "inv b \<Longrightarrow> ok op \<Longrightarrow> step b op = Some (b', bs) \<Longrightarrow> inv b'"
    and feeds: "inv b \<Longrightarrow> step b (Feed xs) = Some (b', bs) \<Longrightarrow> bs = xs \<and> contents b' = contents b @ xs"
    and drains: "inv b \<Longrightarrow> ok (Drain n) \<Longrightarrow> step b (Drain n) = Some (b', bs) \<Longrightarrow> contents b = bs @ contents b'"
begin

lemma first_in_first_out:
  "inv b \<Longrightarrow> list_all ok ops \<Longrightarrow> queue_run step b ops = (b', fed, drained)
    \<Longrightarrow> contents b @ fed = drained @ contents b' \<and> inv b'"
proof (induction ops arbitrary: b fed drained)
  case (Cons op ops)
  show ?case
  proof (cases "step b op")
    case None
    then show ?thesis using Cons by simp
  next
    case (Some r)
    obtain c bs where r: "r = (c, bs)" by (cases r)
    obtain fed' drained' where run: "queue_run step c ops = (b', fed', drained')"
      and eqs: "fed = (if is_feed op then bs @ fed' else fed')"
        "drained = (if is_feed op then drained' else bs @ drained')"
      using Cons.prems(3) Some r by (auto split: prod.splits)
    have "inv c" using step_inv Cons.prems(1,2) Some r by auto
    from Cons.IH[OF this _ run] have IH: "contents c @ fed' = drained' @ contents b'" and "inv b'"
      using Cons.prems(2) by simp_all
    show ?thesis
    proof (cases op)
      case (Feed xs)
      then show ?thesis using feeds[of b xs c bs] Cons.prems(1) Some r IH eqs \<open>inv b'\<close> by simp
    next
      case (Drain n)
      then show ?thesis using drains[of b n c bs] Cons.prems(1,2) Some r IH eqs \<open>inv b'\<close> by simp
    qed
  qed
qed simp

end

definition small_drain :: "queue_op \<Rightarrow> bool" where
  "small_drain op = (case op of Feed _ \<Rightarrow> True | Drain n \<Rightarrow> unat n \<le> isize_max)"

lemma zb_pos:
  assumes "zb_inv b"
  shows "unat (read_pos b) \<le> unat (write_pos b)" "unat (write_pos b) \<le> length (zb_data b)"
    "length (zb_data b) = unat (zb_capacity b)" "length (zb_data b) \<le> isize_max"
  using assms by (simp_all add: zb_inv_def word_le_nat_alt)

lemma feed_iff:
  assumes inv: "zb_inv b"
  shows "queue_step b (Feed bs) =
     (if length bs \<le> unat (write_available b)
      then Some ((store_in_slice b bs)\<lparr>write_pos := write_pos b + usize_len bs\<rparr>, bs) else None)"
proof -
  note p = zb_pos[OF inv]
  have avail: "unat (write_available b) = length (zb_data b) - unat (write_pos b)"
    using p by (simp add: write_available_def unat_sub word_le_nat_alt)
  have "unat (write_pos b + usize_len bs) = unat (write_pos b) + length bs"
    if "length bs \<le> length (zb_data b) - unat (write_pos b)"
    using that p by (simp add: unat_add_no_wrap unat_usize_len isize_max_def)
  then show ?thesis
    using p avail by (auto simp: write_slice_def advance_write_def store_in_slice_def word_le_nat_alt not_less
        word_less_nat_alt)
qed

interpretation zb: byte_queue queue_step zb_queue zb_inv small_drain
proof unfold_locales
  fix b b' bs xs assume inv: "zb_inv b" and st: "queue_step b (Feed xs) = Some (b', bs)"
  note p = zb_pos[OF inv]
  from st have b': "b' = (store_in_slice b xs)\<lparr>write_pos := write_pos b + usize_len xs\<rparr>" "bs = xs"
    and len: "length xs \<le> length (zb_data b) - unat (write_pos b)"
    using p by (auto simp: feed_iff[OF inv] write_available_def unat_sub word_le_nat_alt
        simp del: queue_step.simps split: if_splits)
  have w: "unat (write_pos b + usize_len xs) = unat (write_pos b) + length xs"
    using len p by (simp add: unat_add_no_wrap unat_usize_len isize_max_def)
  then show "bs = xs \<and> zb_queue b' = zb_queue b @ xs"
    using p len by (simp add: b' zb_queue_def store_in_slice_def)
next
  fix b b' bs n assume inv: "zb_inv b" and ok: "small_drain (Drain n)"
    and st: "queue_step b (Drain n) = Some (b', bs)"
  note p = zb_pos[OF inv]
  have w: "unat (read_pos b + n) = unat (read_pos b) + unat n"
    using ok p by (simp add: small_drain_def unat_add_no_wrap isize_max_def)
  show "zb_queue b = bs @ zb_queue b'"
    using st p w
    by (auto simp: read_slice_def advance_read_def zb_queue_def word_le_nat_alt word_less_nat_alt
        split: if_splits) (metis append_take_drop_id drop_drop add.commute)
next
  fix b op b' bs assume inv: "zb_inv b" and ok: "small_drain op" and st: "queue_step b op = Some (b', bs)"
  note p = zb_pos[OF inv]
  show "zb_inv b'"
  proof (cases op)
    case (Feed xs)
    then have b': "b' = (store_in_slice b xs)\<lparr>write_pos := write_pos b + usize_len xs\<rparr>"
      and len: "length xs \<le> length (zb_data b) - unat (write_pos b)"
      using st p by (auto simp: feed_iff[OF inv] write_available_def unat_sub word_le_nat_alt
          simp del: queue_step.simps split: if_splits)
    have "unat (write_pos b + usize_len xs) = unat (write_pos b) + length xs"
      using len p by (simp add: unat_add_no_wrap unat_usize_len isize_max_def)
    then show ?thesis
      using p len by (simp add: b' zb_inv_def store_in_slice_def word_le_nat_alt)
  next
    case (Drain n)
    have "unat (read_pos b + n) = unat (read_pos b) + unat n"
      using ok p Drain by (simp add: small_drain_def unat_add_no_wrap isize_max_def)
    then show ?thesis
      using st p Drain by (auto simp: zb_inv_def read_slice_def advance_read_def word_le_nat_alt
          word_less_nat_alt split: if_splits)
  qed
qed

section \<open>Properties\<close>

lemma with_capacity_inv:
  assumes "with_capacity cap = Inr b"
  shows "zb_inv b" "zb_queue b = []"
  using assms by (auto simp: with_capacity_def zb_inv_def zb_queue_def split: if_splits)

text \<open>C16: The zero-copy buffer is a first-in first-out byte queue: from a new buffer, after any feeds and
  drains of at most \<open>isize::MAX\<close> bytes, refused steps included, what was fed is what was drained
  followed by what the read slice shows, and the read slice never panics.\<close>

theorem buffer_first_in_first_out:
  assumes "with_capacity cap = Inr b" and "list_all small_drain ops"
    and "queue_run queue_step b ops = (b', fed, drained)"
  shows "\<exists>rest. read_slice b' = Inr rest \<and> fed = drained @ rest \<and> read_available b' = usize_len rest"
proof -
  have q: "fed = drained @ zb_queue b'" and inv: "zb_inv b'"
    using zb.first_in_first_out[OF with_capacity_inv(1)[OF assms(1)] assms(2,3)] with_capacity_inv(2)[OF assms(1)]
    by simp_all
  note p = zb_pos[OF inv]
  then have r: "read_slice b' = Inr (zb_queue b')"
    by (simp add: read_slice_def zb_queue_def word_less_nat_alt)
  have "length (zb_queue b') = unat (write_pos b') - unat (read_pos b')"
    using p by (simp add: zb_queue_def)
  then have "read_available b' = usize_len (zb_queue b')"
    using p by (simp add: read_available_def usize_len_def word_unat_eq_iff unat_sub word_le_nat_alt
        unat_of_nat isize_max_def)
  with q r show ?thesis by blast
qed

theorem buffer_first_in_first_out_witness:
  "\<exists>b' rest. queue_run queue_step \<lparr>zb_data = [0, 0, 0, 0], zb_capacity = 4, read_pos = 0, write_pos = 0\<rparr>
      [Feed [1, 2, 3], Drain 2, Feed [7, 8], Feed [9]] = (b', [1, 2, 3, 9], [1, 2])
    \<and> read_slice b' = Inr rest \<and> [1, 2, 3, 9] = [1, 2] @ rest"
proof -
  let ?b = "\<lparr>zb_data = [0, 0, 0, 0], zb_capacity = 4, read_pos = 0, write_pos = 0\<rparr> :: zero_copy_buffer"
  have b: "with_capacity 4 = Inr ?b"
  proof -
    have "replicate 4 (0 :: u8) = [0, 0, 0, 0]" by (simp add: numeral_eq_Suc)
    then show ?thesis by (simp add: with_capacity_def isize_max_def)
  qed
  obtain b' where r: "queue_run queue_step ?b [Feed [1, 2, 3], Drain 2, Feed [7, 8], Feed [9]]
      = (b', [1, 2, 3, 9], [1, 2])"
    by (simp add: write_slice_def advance_write_def store_in_slice_def read_slice_def advance_read_def usize_len_def)
  have "list_all small_drain [Feed [1, 2, 3], Drain 2, Feed [7, 8], Feed [9]]"
    by (simp add: small_drain_def isize_max_def)
  from buffer_first_in_first_out[OF b this r] r show ?thesis by blast
qed

text \<open>C38: The capacity check of \<open>advance_write\<close> can be passed by wrapping around: on any buffer that has
  been read from, there is a count that is accepted and moves the write cursor before the read
  cursor, so that the next \<open>read_slice\<close> panics.\<close>

theorem advance_write_wraps:
  assumes "zb_inv b" and "read_pos b \<noteq> 0"
  shows "\<exists>count b'. advance_write b count = (b', Inr ()) \<and> write_pos b' < read_pos b'
    \<and> read_slice b' = Inl Slice_Out_Of_Range"
  using assms by (intro exI[of _ "- write_pos b"])
    (simp add: advance_write_def read_slice_def word_neq_0_conv)

theorem advance_write_wraps_witness:
  "\<exists>count b'. advance_write \<lparr>zb_data = [1, 2], zb_capacity = 2, read_pos = 1, write_pos = 2\<rparr> count = (b', Inr ())
     \<and> read_slice b' = Inl Slice_Out_Of_Range"
proof -
  have "zb_inv \<lparr>zb_data = [1, 2], zb_capacity = 2, read_pos = 1, write_pos = 2\<rparr>"
    by (simp add: zb_inv_def isize_max_def)
  from advance_write_wraps[OF this] show ?thesis by auto
qed

lemma build_total: "unwrap_frame (frame_build b) = Inr (projr (frame_build b))"
  by (simp add: unwrap_frame_def frame_build_def)

lemma collect_frames_Inr: "collect_frames (map (\<lambda>x. Inr (f x)) xs) = Inr (map f xs)"
  by (induction xs) auto

text \<open>The fixtures are what their names say: the unwraps in them never panic, \<open>sample_frames\<close> numbers
  its frames from 1, and the three networks are healthy, degraded but not offline, and offline.\<close>

lemma fixtures_as_named:
  "(\<exists>fs. sample_frames count = Inr fs \<and> map frame_id fs = map of_nat [1..<Suc (unat count)])
   \<and> (\<exists>f. frame_with_quality i q = Inr f \<and> frame_id f = i
        \<and> fm_latency_ms (metadata f) = Some (latency_ms q))
   \<and> \<not> is_degraded excellent_network
   \<and> is_degraded degraded_network \<and> \<not> is_offline degraded_network
   \<and> is_offline offline_network"
proof -
  have "0 \<le> fround binary64 (1 / 10)" "fround binary64 (1 / 10) \<le> 1"
    using fround64_between[of 0 1 "1 / 10"] by simp_all
  then have "\<not> f64_lit 5 < f64_lit (1 / 10)"
    by (simp add: f64_lit_def fp_of_rat_Fin)
  then have "\<not> is_degraded excellent_network"
    by (simp add: is_degraded_def excellent_network_def quality_excellent_def quality_build_def quality_builder_new_def
        with_latency_ms_def with_packet_loss_pct_def with_jitter_ms_def with_bandwidth_mbps_def or_default_def)
  moreover have "is_degraded degraded_network" "\<not> is_offline degraded_network" "is_offline offline_network"
    by (simp_all add: is_degraded_def is_offline_def degraded_network_def quality_degraded_def offline_network_def quality_offline_def quality_build_def
        quality_builder_new_def with_latency_ms_def with_packet_loss_pct_def with_jitter_ms_def
        with_bandwidth_mbps_def or_default_def)
  moreover have "\<exists>fs. sample_frames count = Inr fs \<and> map frame_id fs = map of_nat [1..<Suc (unat count)]"
    unfolding sample_frames_def sample_frame_with_id_def build_total collect_frames_Inr
    by (simp add: frame_build_def with_payload_str_def with_source_ip_def with_frame_id_def or_default_def
        del: upt_Suc)
  moreover have "\<exists>f. frame_with_quality i q = Inr f \<and> frame_id f = i
      \<and> fm_latency_ms (metadata f) = Some (latency_ms q)"
    unfolding frame_with_quality_def Let_def build_total
    by (simp add: frame_build_def with_payload_str_def with_source_ip_def with_frame_id_def
        with_metadata_def or_default_def)
  ultimately show ?thesis by blast
qed

end
