(* ===== verification/XdpIngest.thy ===== *)
theory XdpIngest
  imports Common
begin

text \<open>
  The packet ingestion daemon (\<^verbatim>\<open>crates/xdp-ingest/src/main.rs\<close>): the UMEM region with its slices, the
  socket and its receive loop, and the parsing of a packet into a telemetry frame. The readings of
  the running flag and of the clock are arguments; the slices panic as the standard library's do.
\<close>

section \<open>The UMEM region\<close>

record umem_region =
  frame_size :: usize
  frame_count :: usize
  umem_buffer :: bytes

definition umem_new :: "usize \<Rightarrow> usize \<Rightarrow> panic + umem_region" where
  "umem_new fs fc =
     (if unat (fs * fc) > isize_max then Inl Capacity_Overflow
      else Inr \<lparr>frame_size = fs, frame_count = fc, umem_buffer = replicate (unat (fs * fc)) 0\<rparr>)"

text \<open>\<^verbatim>\<open>&v[start..stop]\<close>\<close>

definition slice_range :: "bytes \<Rightarrow> usize \<Rightarrow> usize \<Rightarrow> panic + bytes" where
  "slice_range v start stop =
     (if start > stop \<or> unat stop > length v then Inl Slice_Out_Of_Range
      else Inr (drop (unat start) (take (unat stop) v)))"

definition get_frame :: "umem_region \<Rightarrow> usize \<Rightarrow> panic + bytes" where
  "get_frame u frame_idx =
     (let start = frame_idx * frame_size u
      in slice_range (umem_buffer u) start
           (start + min (frame_size u) (usize_len (umem_buffer u) - start)))"

text \<open>The slice, and the region after its holder replaced the bytes in it.\<close>

definition get_frame_mut :: "umem_region \<Rightarrow> usize \<Rightarrow> panic + bytes \<times> (bytes \<Rightarrow> umem_region)" where
  "get_frame_mut u frame_idx =
     (let start = frame_idx * frame_size u;
          stop = min (start + frame_size u) (usize_len (umem_buffer u))
      in case slice_range (umem_buffer u) start stop of
           Inl p \<Rightarrow> Inl p
         | Inr s \<Rightarrow> Inr (s, \<lambda>s'. u\<lparr>umem_buffer := take (unat start) (umem_buffer u) @ s'
                                 @ drop (unat stop) (umem_buffer u)\<rparr>))"

section \<open>The socket\<close>

record socket_stats =
  packets_received :: u64
  bytes_received :: u64
  errors :: u64

record xdp_socket =
  xs_iface :: string
  xs_queue_id :: u32
  umem :: umem_region
  xs_stats :: socket_stats

definition socket_new :: "string \<Rightarrow> u32 \<Rightarrow> usize \<Rightarrow> panic + xdp_socket" where
  "socket_new iface queue_id ring_size_kb =
     (let fs = 2048; fc = (ring_size_kb * 1024) div fs
      in case umem_new fs fc of
           Inl p \<Rightarrow> Inl p
         | Inr u \<Rightarrow> Inr \<lparr>xs_iface = iface, xs_queue_id = queue_id, umem = u,
             xs_stats = \<lparr>packets_received = 0, bytes_received = 0, errors = 0\<rparr>\<rparr>)"

definition parse_telemetry_frame :: "bytes \<Rightarrow> u64 \<Rightarrow> u64 \<Rightarrow> telemetry_frame option" where
  "parse_telemetry_frame data fid now =
     (if length data < 20 then None
      else Some \<lparr>frame_id = fid, source_ip = ''0.0.0.0'', dest_ip = None, timestamp_ns = now,
                 payload = data, metadata = default_metadata\<rparr>)"

text \<open>\<^verbatim>\<open>frame[..n].fill(x)\<close>\<close>

definition fill_prefix :: "bytes \<Rightarrow> usize \<Rightarrow> u8 \<Rightarrow> panic + bytes" where
  "fill_prefix frame n x = (if unat n > length frame then Inl Slice_Out_Of_Range
     else Inr (replicate (unat n) x @ drop (unat n) frame))"

text \<open>The simulated reception: the region, and the frame that was parsed.\<close>

definition receive_packet :: "umem_region \<Rightarrow> u64 \<Rightarrow> u64 \<Rightarrow> panic + umem_region \<times> telemetry_frame option" where
  "receive_packet u fid now =
     (case get_frame_mut u 0 of
        Inl p \<Rightarrow> Inl p
      | Inr (frame, put) \<Rightarrow>
          (let packet_len = min 100 (usize_len frame) in
           case fill_prefix frame packet_len 0xAB of
             Inl p \<Rightarrow> Inl p
           | Inr frame' \<Rightarrow>
               (case get_frame (put frame') 0 of
                  Inl p \<Rightarrow> Inl p
                | Inr whole \<Rightarrow>
                    (case slice_range whole 0 packet_len of
                       Inl p \<Rightarrow> Inl p
                     | Inr packet \<Rightarrow> Inr (put frame', parse_telemetry_frame packet fid now)))))"

definition receive_iteration :: "xdp_socket \<Rightarrow> u64 \<Rightarrow> panic + xdp_socket \<times> telemetry_frame option" where
  "receive_iteration s now =
     (case (if frame_count (umem s) > 0
            then receive_packet (umem s) (packets_received (xs_stats s) + 1) now
            else Inr (umem s, None)) of
        Inl p \<Rightarrow> Inl p
      | Inr (u, parsed) \<Rightarrow>
          Inr (s\<lparr>umem := u, xs_stats := (xs_stats s)\<lparr>packets_received := packets_received (xs_stats s) + 1,
                   bytes_received := bytes_received (xs_stats s) + 100\<rparr>\<rparr>, parsed))"

text \<open>
  The loop, for a sequence of readings of the running flag and the clock; it yields the socket and the
  frames that were parsed.
\<close>

fun receive_loop :: "xdp_socket \<Rightarrow> (bool \<times> u64) list \<Rightarrow> panic + xdp_socket \<times> telemetry_frame list" where
  "receive_loop s [] = Inr (s, [])"
| "receive_loop s ((running, now) # readings) =
     (if \<not> running then Inr (s, [])
      else case receive_iteration s now of
             Inl p \<Rightarrow> Inl p
           | Inr (s', parsed) \<Rightarrow>
               (case receive_loop s' readings of
                  Inl p \<Rightarrow> Inl p
                | Inr (s'', fs) \<Rightarrow> Inr (s'', case parsed of None \<Rightarrow> fs | Some f \<Rightarrow> f # fs)))"

section \<open>The daemon\<close>

record xdp_args =
  xa_iface :: string
  xa_port :: u16
  xa_queue_id :: u32
  xa_ring_size_kb :: usize

definition get_stats :: "xdp_socket \<Rightarrow> socket_stats" where
  "get_stats s = xs_stats s"

text \<open>
  How \<^verbatim>\<open>main\<close> ends: with the final statistics, with a join error when the receive task panicked, or with
  the error of the signal handler, when it returns without stopping the task.
\<close>

datatype daemon_end =
    Final_Stats socket_stats
  | Task_Join_Error
  | Signal_Error string

text \<open>
  The socket is created by \<^verbatim>\<open>main\<close> itself, so a panic there is the daemon's; \<open>ctrl_c\<close> is the outcome of waiting
  for the signal, and \<open>readings\<close> what the task reads until it sees the flag cleared.
\<close>

definition xdp_main :: "xdp_args \<Rightarrow> string + unit \<Rightarrow> (bool \<times> u64) list \<Rightarrow> panic + daemon_end" where
  "xdp_main args ctrl_c readings =
     (case socket_new (xa_iface args) (xa_queue_id args) (xa_ring_size_kb args) of
        Inl p \<Rightarrow> Inl p
      | Inr s \<Rightarrow>
          (case ctrl_c of
             Inl e \<Rightarrow> Inr (Signal_Error e)
           | Inr _ \<Rightarrow>
               Inr (case receive_loop s readings of
                      Inl _ \<Rightarrow> Task_Join_Error
                    | Inr (s', _) \<Rightarrow> Final_Stats (get_stats s'))))"

section \<open>Slices of the region\<close>

lemma slice_range_nat:
  assumes "unat start \<le> unat stop" "unat stop \<le> length v"
  shows "slice_range v start stop = Inr (drop (unat start) (take (unat stop) v))"
  using assms by (simp add: slice_range_def word_less_nat_alt)

definition umem_ok :: "umem_region \<Rightarrow> bool" where
  "umem_ok u \<longleftrightarrow> length (umem_buffer u) = unat (frame_size u) * unat (frame_count u)
     \<and> length (umem_buffer u) \<le> isize_max"

lemma umem_new_ok:
  assumes "unat fs * unat fc \<le> isize_max"
  shows "\<exists>u. umem_new fs fc = Inr u \<and> umem_ok u \<and> frame_size u = fs \<and> frame_count u = fc"
proof -
  have "unat (fs * fc) = unat fs * unat fc"
    using assms by (simp add: unat_word_ariths isize_max_def)
  then show ?thesis using assms by (simp add: umem_new_def umem_ok_def)
qed

text \<open>C31: Frames of a region allocated without wrap-around, for an index whose frame would end below \<open>2 ^ 64\<close>,
  so that no offset wraps. With a positive frame size, below the frame count \<open>get_frame\<close> is exactly the
  frame's own block, of full length and disjoint from all others; the index one past the end gives an
  empty slice, and any larger one panics. With frame size 0, which the constructor allows, every index
  gives an empty slice.\<close>

theorem get_frame_exact:
  assumes "unat fs * unat fc \<le> isize_max" and "umem_new fs fc = Inr u"
    and "(unat i + 1) * unat fs < 2 ^ 64"
  shows "get_frame u i =
    (if fs = 0 then Inr []
     else if i < fc then Inr (take (unat fs) (drop (unat i * unat fs) (umem_buffer u)))
     else if i = fc then Inr [] else Inl Slice_Out_Of_Range)
    \<and> (i < fc \<longrightarrow> unat i * unat fs + unat fs \<le> length (umem_buffer u))"
proof -
  have u: "umem_ok u" "frame_size u = fs" "frame_count u = fc" using umem_new_ok[OF assms(1)] assms(2) by auto
  let ?len = "length (umem_buffer u)" and ?start = "i * fs"
  have len: "?len = unat fs * unat fc" "?len \<le> isize_max" using u by (simp_all add: umem_ok_def)
  have start: "unat ?start = unat i * unat fs"
    using assms(3) by (simp add: unat_word_ariths)
  have ulen: "unat (usize_len (umem_buffer u)) = ?len"
    by (rule unat_usize_len[OF isize_max_less[OF len(2)]])
  have diff: "unat (usize_len (umem_buffer u) - ?start) = (if unat ?start \<le> ?len then ?len - unat ?start
      else ?len + 2 ^ 64 - unat ?start)"
    unfolding unat_sub_if' ulen by simp
  have stop: "get_frame u i = slice_range (umem_buffer u) ?start
      (?start + min fs (usize_len (umem_buffer u) - ?start))"
    by (simp add: get_frame_def u(2) Let_def)
  have add: "unat (?start + w) = unat ?start + unat w" if "unat w \<le> unat fs" for w
    using that start assms(3) by (intro unat_add_no_wrap) simp
  consider (zero) "fs = 0" | (below) "fs \<noteq> 0" "i < fc" | (at) "fs \<noteq> 0" "i = fc" | (above) "fs \<noteq> 0" "fc < i"
    using linorder_less_linear by blast
  then show ?thesis
  proof cases
    case zero
    then show ?thesis using stop slice_range_nat[of 0 0 "umem_buffer u"] by simp
  next
    case below
    then have "unat i + 1 \<le> unat fc" by (simp add: word_less_nat_alt)
    then have "(unat i + 1) * unat fs \<le> unat fc * unat fs" by (rule mult_le_mono1)
    then have block: "unat i * unat fs + unat fs \<le> ?len" by (simp add: len(1) mult.commute)
    then have "unat fs \<le> unat (usize_len (umem_buffer u) - ?start)" using diff start by simp
    then have "min fs (usize_len (umem_buffer u) - ?start) = fs" by (simp add: min_def word_le_nat_alt)
    then have "get_frame u i = Inr (drop (unat ?start) (take (unat ?start + unat fs) (umem_buffer u)))"
      using stop slice_range_nat[of ?start "?start + fs" "umem_buffer u"] add[of fs] start block by simp
    then show ?thesis using below block start by (simp add: drop_take)
  next
    case at
    then have "unat ?start = ?len" using start len(1) by (simp add: mult.commute)
    then have "unat (usize_len (umem_buffer u) - ?start) = 0" using diff by simp
    then have "min fs (usize_len (umem_buffer u) - ?start) = 0" by (simp add: unat_eq_zero)
    then have "get_frame u i = Inr []"
      using stop slice_range_nat[of ?start ?start "umem_buffer u"] \<open>unat ?start = ?len\<close> by simp
    then show ?thesis using at by simp
  next
    case above
    then have "unat fc < unat i" "0 < unat fs" by (simp_all add: word_less_nat_alt unat_gt_0)
    then have "unat fc * unat fs < unat i * unat fs" by simp
    then have gt: "?len < unat ?start" using start by (simp add: len(1) mult.commute)
    then have "unat fs \<le> unat (usize_len (umem_buffer u) - ?start)" using diff start assms(3) by simp
    then have "min fs (usize_len (umem_buffer u) - ?start) = fs" by (simp add: min_def word_le_nat_alt)
    then have "get_frame u i = Inl Slice_Out_Of_Range"
      using stop gt add[of fs] by (simp add: slice_range_def)
    then show ?thesis using above by auto
  qed
qed

theorem get_frame_exact_witness:
  "\<exists>u. umem_new 4 2 = Inr u \<and> get_frame u 1 = Inr [0, 0, 0, 0] \<and> get_frame u 2 = Inr []
     \<and> get_frame u 3 = Inl Slice_Out_Of_Range"
proof -
  obtain u where u: "umem_new 4 2 = Inr u" and b: "umem_buffer u = replicate 8 0"
    by (simp add: umem_new_def isize_max_def)
  have "take 4 (drop 4 (replicate 8 0)) = [0 :: u8, 0, 0, 0]" by (simp add: numeral_eq_Suc)
  then show ?thesis
    using get_frame_exact[OF _ u, of 1] get_frame_exact[OF _ u, of 2] get_frame_exact[OF _ u, of 3] u b
    by (simp add: isize_max_def)
qed

section \<open>The receive loop\<close>

lemma umem_ok_room:
  assumes "umem_ok u" and "frame_size u = 2048" and "frame_count u \<noteq> 0"
  shows "2048 \<le> length (umem_buffer u)"
proof -
  have "1 \<le> unat (frame_count u)" using assms(3) by (simp add: Suc_le_eq unat_gt_0)
  then have "2048 * 1 \<le> 2048 * unat (frame_count u)" by (rule mult_le_mono2)
  then show ?thesis using assms by (simp add: umem_ok_def)
qed

lemma receive_packet_ok:
  assumes ok: "umem_ok u" and fs: "frame_size u = 2048" and fc: "frame_count u \<noteq> 0"
  shows "receive_packet u fid now =
    Inr (u\<lparr>umem_buffer := replicate 100 0xAB @ drop 100 (umem_buffer u)\<rparr>,
         parse_telemetry_frame (replicate 100 0xAB) fid now)"
proof -
  let ?v = "umem_buffer u"
  have big: "2048 \<le> length ?v" "length ?v \<le> isize_max"
    using umem_ok_room[OF ok fs fc] ok by (simp_all add: umem_ok_def)
  have len: "unat (usize_len ?v) = length ?v" by (rule unat_usize_len[OF isize_max_less[OF big(2)]])
  then have min1: "min 2048 (usize_len ?v) = 2048" using big by (simp add: min_def word_le_nat_alt)
  have slice1: "slice_range ?v 0 2048 = Inr (take 2048 ?v)"
    using big slice_range_nat[of 0 2048 ?v] by simp
  have frame: "usize_len (take 2048 ?v) = 2048" using big by (simp add: usize_len_def)
  let ?f = "replicate 100 0xAB @ drop 100 (take 2048 ?v)" and ?w = "replicate 100 0xAB @ drop 100 ?v"
  have put: "replicate 100 0xAB @ drop 100 (take 2048 ?v) @ drop 2048 ?v = ?w"
  proof -
    have "drop 100 (take 2048 ?v @ drop 2048 ?v) = drop 100 (take 2048 ?v) @ drop 2048 ?v"
      using big by (simp del: append_take_drop_id)
    then show ?thesis by simp
  qed
  have lw: "length ?w = length ?v" using big by simp
  then have whole: "slice_range ?w 0 2048 = Inr (take 2048 ?w)"
    using big slice_range_nat[of 0 2048 ?w] by simp
  have packet: "slice_range (take 2048 ?w) 0 100 = Inr (replicate 100 0xAB)"
    using big slice_range_nat[of 0 100 "take 2048 ?w"] by simp
  have gf: "get_frame (u\<lparr>umem_buffer := ?w\<rparr>) 0 = Inr (take 2048 ?w)"
    using whole lw min1 by (simp add: get_frame_def fs usize_len_def)
  have gm: "get_frame_mut u 0 = Inr (take 2048 ?v, \<lambda>s'. u\<lparr>umem_buffer := s' @ drop 2048 ?v\<rparr>)"
    using slice1 min1 by (simp add: get_frame_mut_def fs)
  have "fill_prefix (take 2048 ?v) 100 0xAB = Inr ?f"
    using big by (simp add: fill_prefix_def)
  then show ?thesis
    using gf packet put by (simp add: receive_packet_def gm frame Let_def)
qed

definition socket_ok :: "xdp_socket \<Rightarrow> bool" where
  "socket_ok s \<longleftrightarrow> umem_ok (umem s) \<and> frame_size (umem s) = 2048"

lemma receive_iteration_ok:
  assumes "socket_ok s"
  shows "\<exists>s' parsed. receive_iteration s now = Inr (s', parsed) \<and> socket_ok s'
    \<and> frame_count (umem s') = frame_count (umem s)
    \<and> xs_stats s' = (xs_stats s)\<lparr>packets_received := packets_received (xs_stats s) + 1,
         bytes_received := bytes_received (xs_stats s) + 100\<rparr>
    \<and> parsed = (if frame_count (umem s) = 0 then None
        else parse_telemetry_frame (replicate 100 0xAB) (packets_received (xs_stats s) + 1) now)"
proof (cases "frame_count (umem s) = 0")
  case True
  then show ?thesis using assms by (simp add: receive_iteration_def socket_ok_def)
next
  case False
  have "2048 \<le> length (umem_buffer (umem s))"
    using umem_ok_room assms False by (simp add: socket_ok_def)
  moreover have "receive_packet (umem s) (packets_received (xs_stats s) + 1) now =
      Inr ((umem s)\<lparr>umem_buffer := replicate 100 0xAB @ drop 100 (umem_buffer (umem s))\<rparr>,
           parse_telemetry_frame (replicate 100 0xAB) (packets_received (xs_stats s) + 1) now)"
    using assms False by (intro receive_packet_ok) (simp_all add: socket_ok_def)
  moreover have "length (umem_buffer (umem s)) = 2048 * unat (frame_count (umem s))"
    "length (umem_buffer (umem s)) \<le> isize_max" "frame_size (umem s) = 2048" "0 < frame_count (umem s)"
    using assms False by (auto simp: socket_ok_def umem_ok_def word_neq_0_conv)
  ultimately show ?thesis
    using False by (simp add: receive_iteration_def socket_ok_def umem_ok_def)
qed

lemma receive_loop_ok:
  "socket_ok s \<Longrightarrow> \<exists>s' fs. receive_loop s rs = Inr (s', fs)
    \<and> packets_received (xs_stats s') = packets_received (xs_stats s) + of_nat (length (takeWhile fst rs))
    \<and> bytes_received (xs_stats s') = bytes_received (xs_stats s) + 100 * of_nat (length (takeWhile fst rs))
    \<and> errors (xs_stats s') = errors (xs_stats s)
    \<and> (if frame_count (umem s) = 0 then fs = []
       else map frame_id fs = map (\<lambda>i. packets_received (xs_stats s) + of_nat i) [1..<Suc (length (takeWhile fst rs))]
         \<and> list_all (\<lambda>f. payload f = replicate 100 0xAB) fs)"
proof (induction rs arbitrary: s)
  case Nil
  then show ?case by simp
next
  case (Cons r rs)
  obtain running now where r: "r = (running, now)" by (cases r)
  show ?case
  proof (cases running)
    case False
    then show ?thesis by (simp add: r)
  next
    case True
    obtain s1 parsed where 1: "receive_iteration s now = Inr (s1, parsed)" "socket_ok s1"
      "frame_count (umem s1) = frame_count (umem s)"
      "xs_stats s1 = (xs_stats s)\<lparr>packets_received := packets_received (xs_stats s) + 1,
         bytes_received := bytes_received (xs_stats s) + 100\<rparr>"
      "parsed = (if frame_count (umem s) = 0 then None
        else parse_telemetry_frame (replicate 100 0xAB) (packets_received (xs_stats s) + 1) now)"
      using receive_iteration_ok[OF Cons.prems, of now] by blast
    obtain s2 fs where 2: "receive_loop s1 rs = Inr (s2, fs)"
      "packets_received (xs_stats s2) = packets_received (xs_stats s1) + of_nat (length (takeWhile fst rs))"
      "bytes_received (xs_stats s2) = bytes_received (xs_stats s1) + 100 * of_nat (length (takeWhile fst rs))"
      "errors (xs_stats s2) = errors (xs_stats s1)"
      "if frame_count (umem s1) = 0 then fs = []
       else map frame_id fs = map (\<lambda>i. packets_received (xs_stats s1) + of_nat i) [1..<Suc (length (takeWhile fst rs))]
         \<and> list_all (\<lambda>f. payload f = replicate 100 0xAB) fs"
      using Cons.IH[OF 1(2)] by blast
    have up: "[Suc 0..<Suc (Suc n)] = Suc 0 # map Suc [Suc 0..<Suc n]" for n
      by (simp only: map_Suc_upt upt_conv_Cons Suc_less_eq zero_less_Suc)
    show ?thesis
      using True 1 2 by (auto simp: r parse_telemetry_frame_def up algebra_simps simp del: upt_Suc)
  qed
qed

text \<open>C30: A daemon started with a ring below \<open>2 ^ 53\<close> KB never panics, whenever it is stopped, and ends
  with its statistics: it counts one packet of 100 bytes per reading of a set running flag and no
  errors, and the frames it parses are numbered from 1 with the 100-byte pattern as payload. With a
  ring below 2 KB there is no frame to receive into, and packets are counted all the same.\<close>

theorem receive_loop_exact:
  assumes "ring_size_kb < 2 ^ 53"
  shows "\<exists>s s' fs. socket_new iface queue ring_size_kb = Inr s \<and> receive_loop s readings = Inr (s', fs)
    \<and> xdp_main \<lparr>xa_iface = iface, xa_port = port, xa_queue_id = queue, xa_ring_size_kb = ring_size_kb\<rparr>
        (Inr ()) readings = Inr (Final_Stats (xs_stats s'))
    \<and> packets_received (xs_stats s') = of_nat (length (takeWhile fst readings))
    \<and> bytes_received (xs_stats s') = 100 * of_nat (length (takeWhile fst readings))
    \<and> errors (xs_stats s') = 0
    \<and> (if ring_size_kb < 2 then fs = []
       else map frame_id fs = map of_nat [1..<Suc (length (takeWhile fst readings))]
         \<and> list_all (\<lambda>f. payload f = replicate 100 0xAB) fs)"
proof -
  have r: "unat ring_size_kb < 2 ^ 53" using assms by (simp add: word_less_nat_alt)
  let ?fc = "(ring_size_kb * 1024) div 2048"
  have fc: "unat ?fc = unat ring_size_kb div 2"
    using r by (simp add: unat_div unat_word_ariths)
  then have "unat (2048 :: usize) * unat ?fc \<le> isize_max" using r by (simp add: isize_max_def)
  from umem_new_ok[OF this] obtain u where u: "umem_new 2048 ?fc = Inr u" "umem_ok u" "frame_size u = 2048"
    "frame_count u = ?fc" by blast
  have z: "?fc = 0 \<longleftrightarrow> ring_size_kb < 2"
    using fc unat_eq_zero[of ?fc] by (auto simp: word_less_nat_alt)
  let ?s = "\<lparr>xs_iface = iface, xs_queue_id = queue, umem = u,
     xs_stats = \<lparr>packets_received = 0, bytes_received = 0, errors = 0\<rparr>\<rparr>"
  have "socket_new iface queue ring_size_kb = Inr ?s" by (simp add: socket_new_def Let_def u(1))
  moreover have "socket_ok ?s" using u by (simp add: socket_ok_def)
  moreover obtain s' fs where "receive_loop ?s readings = Inr (s', fs)"
    "packets_received (xs_stats s') = of_nat (length (takeWhile fst readings))"
    "bytes_received (xs_stats s') = 100 * of_nat (length (takeWhile fst readings))" "errors (xs_stats s') = 0"
    "if ?fc = 0 then fs = []
     else map frame_id fs = map of_nat [1..<Suc (length (takeWhile fst readings))]
       \<and> list_all (\<lambda>f. payload f = replicate 100 0xAB) fs"
    using receive_loop_ok[OF \<open>socket_ok ?s\<close>, of readings] u(4) by (simp only: xdp_socket.simps socket_stats.simps) auto
  ultimately show ?thesis unfolding z by (auto simp: xdp_main_def get_stats_def)
qed

theorem receive_loop_exact_witness:
  "\<exists>s s' fs. socket_new ''eth0'' 0 256 = Inr s \<and> receive_loop s [(True, 5), (True, 6), (False, 7)] = Inr (s', fs)
     \<and> packets_received (xs_stats s') = 2 \<and> map frame_id fs = [1, 2]"
  using receive_loop_exact[of 256 "''eth0''" 0 "[(True, 5), (True, 6), (False, 7)]" 47821]
  by (auto simp: upt_rec)

end
