(* ===== verification/XdpProg.thy ===== *)
theory XdpProg
  imports Prelude "HOL-Library.Monad_Syntax"
begin

text \<open>
  The kernel's XDP program (\<^verbatim>\<open>crates/xdp-ingest/bpf/xdp_prog.c\<close>), which looks for telemetry datagrams and
  describes them to user space through a ring buffer. A packet is its bytes between \<^verbatim>\<open>data\<close> and
  \<^verbatim>\<open>data_end\<close>, a pointer into it the offset from \<^verbatim>\<open>data\<close>; a load outside of the packet is \<open>None\<close>, the
  access for which the kernel would refuse the program. Whether the ring buffer has room, the clock
  and the byte order of the machine are arguments. Header layouts are those of the kernel's API.
  The program is then compared with what the Internet's standards make of a packet.
\<close>

section \<open>Loads and byte order\<close>

unbundle bit_operations_syntax

definition load_bytes :: "bytes \<Rightarrow> nat \<Rightarrow> nat \<Rightarrow> bytes option" where
  "load_bytes packet offset n =
     (if offset + n \<le> length packet then Some (take n (drop offset packet)) else None)"

text \<open>The integer that a load of these bytes gives on a big-endian or a little-endian machine.\<close>

definition host_word :: "bool \<Rightarrow> bytes \<Rightarrow> 'a::len word" where
  "host_word big bs = foldl (\<lambda>w b. push_bit 8 w OR ucast b) 0 (if big then bs else rev bs)"

definition load_u8 :: "bytes \<Rightarrow> nat \<Rightarrow> u8 option" where
  "load_u8 packet offset = map_option (host_word True) (load_bytes packet offset 1)"

definition load_u16 :: "bool \<Rightarrow> bytes \<Rightarrow> nat \<Rightarrow> u16 option" where
  "load_u16 big packet offset = map_option (host_word big) (load_bytes packet offset 2)"

definition load_u32 :: "bool \<Rightarrow> bytes \<Rightarrow> nat \<Rightarrow> u32 option" where
  "load_u32 big packet offset = map_option (host_word big) (load_bytes packet offset 4)"

text \<open>\<^verbatim>\<open>__builtin_bswap16\<close>\<close>

definition bswap16 :: "u16 \<Rightarrow> u16" where
  "bswap16 x = push_bit 8 x OR drop_bit 8 x"

definition bpf_htons :: "bool \<Rightarrow> u16 \<Rightarrow> u16" where
  "bpf_htons big x = (if big then x else bswap16 x)"

definition bpf_ntohs :: "bool \<Rightarrow> u16 \<Rightarrow> u16" where
  "bpf_ntohs big x = (if big then x else bswap16 x)"

section \<open>The program\<close>

definition EDGE_TELEMETRY_UDP_PORT :: u16 where
  "EDGE_TELEMETRY_UDP_PORT = 47821"

definition ETH_P_IP :: u16 where
  "ETH_P_IP = 0x0800"

definition IPPROTO_UDP :: u8 where
  "IPPROTO_UDP = 17"

definition sizeof_ethhdr :: nat where
  "sizeof_ethhdr = 14"

definition sizeof_iphdr :: nat where
  "sizeof_iphdr = 20"

definition sizeof_udphdr :: nat where
  "sizeof_udphdr = 8"

datatype xdp_action = XDP_ABORTED | XDP_DROP | XDP_PASS | XDP_TX | XDP_REDIRECT

record telemetry_meta =
  tm_src_ip :: u32
  tm_dst_ip :: u32
  tm_src_port :: u16
  tm_dst_port :: u16
  tm_payload_len :: u16
  tm_timestamp_ns :: u64

text \<open>The part of the program after the port has matched, with what it submits to the ring buffer.\<close>

definition submit_meta :: "bool \<Rightarrow> bool \<Rightarrow> u64 \<Rightarrow> bytes \<Rightarrow> nat \<Rightarrow> nat \<Rightarrow> u16
    \<Rightarrow> (xdp_action \<times> telemetry_meta option) option" where
  "submit_meta big reserved now packet iph udph dst_port =
     (if reserved then do {
        saddr \<leftarrow> load_u32 big packet (iph + 12);
        daddr \<leftarrow> load_u32 big packet (iph + 16);
        source \<leftarrow> load_u16 big packet udph;
        len \<leftarrow> load_u16 big packet (udph + 4);
        Some (XDP_PASS, Some \<lparr>tm_src_ip = saddr, tm_dst_ip = daddr, tm_src_port = bpf_ntohs big source,
          tm_dst_port = dst_port, tm_payload_len = bpf_ntohs big len - of_nat sizeof_udphdr,
          tm_timestamp_ns = now\<rparr>)
      }
      else Some (XDP_PASS, None))"

definition xdp_filter_telemetry :: "bool \<Rightarrow> bool \<Rightarrow> u64 \<Rightarrow> bytes
    \<Rightarrow> (xdp_action \<times> telemetry_meta option) option" where
  "xdp_filter_telemetry big reserved now packet =
     (let data_end = length packet; eth = 0
      in if eth + sizeof_ethhdr > data_end then Some (XDP_PASS, None)
         else do {
           h_proto \<leftarrow> load_u16 big packet (eth + 12);
           if h_proto \<noteq> bpf_htons big ETH_P_IP then Some (XDP_PASS, None)
           else (let iph = sizeof_ethhdr
                 in if iph + sizeof_iphdr > data_end then Some (XDP_PASS, None)
                    else do {
                      protocol \<leftarrow> load_u8 packet (iph + 9);
                      if protocol \<noteq> IPPROTO_UDP then Some (XDP_PASS, None)
                      else (let udph = sizeof_ethhdr + sizeof_iphdr
                            in if udph + sizeof_udphdr > data_end then Some (XDP_PASS, None)
                               else do {
                                 dest \<leftarrow> load_u16 big packet (udph + 2);
                                 let dst_port = bpf_ntohs big dest;
                                 if dst_port \<noteq> EDGE_TELEMETRY_UDP_PORT then Some (XDP_PASS, None)
                                 else submit_meta big reserved now packet iph udph dst_port
                               })
                    })
         })"

section \<open>What is on the wire\<close>

text \<open>Fields of a packet in network byte order, and the program's view of them.\<close>

definition wire_u16 :: "bytes \<Rightarrow> nat \<Rightarrow> u16" where
  "wire_u16 packet offset = push_bit 8 (ucast (packet ! offset)) OR ucast (packet ! (offset + 1))"

lemma take2_drop: "offset + 2 \<le> length xs \<Longrightarrow> take 2 (drop offset xs) = [xs ! offset, xs ! (offset + 1)]"
  by (intro nth_equalityI) (auto simp: less_2_cases_iff)

lemma bit_bswap16: "bit (bswap16 x) n \<longleftrightarrow> (if n < 8 then bit x (n + 8) else n < 16 \<and> bit x (n - 8))"
  by (auto simp: bswap16_def bit_simps add.commute dest: bit_imp_le_length)

lemma bswap16_bswap16 [simp]: "bswap16 (bswap16 x) = x"
  by (rule bit_word_eqI) (auto simp: bit_bswap16)

lemma bswap16_bytes: "bswap16 (push_bit 8 (ucast a) OR ucast b) = push_bit 8 (ucast b) OR ucast a" for a b :: u8
  by (rule bit_word_eqI) (auto simp: bit_bswap16 bit_simps dest: bit_imp_le_length)

lemma load_u16_wire:
  assumes "offset + 2 \<le> length packet"
  obtains w where "load_u16 big packet offset = Some w" "bpf_ntohs big w = wire_u16 packet offset"
    "\<forall>x. w = bpf_htons big x \<longleftrightarrow> wire_u16 packet offset = x"
proof -
  let ?w = "host_word big [packet ! offset, packet ! (offset + 1)]"
  have "load_u16 big packet offset = Some ?w"
    using assms take2_drop[OF assms] by (simp add: load_u16_def load_bytes_def)
  moreover have n: "bpf_ntohs big ?w = wire_u16 packet offset"
    by (simp add: bpf_ntohs_def host_word_def wire_u16_def bswap16_bytes)
  moreover have "?w = bpf_htons big x \<longleftrightarrow> bpf_ntohs big ?w = x" for x
    by (auto simp: bpf_htons_def bpf_ntohs_def)
  ultimately show thesis using that by simp
qed

text \<open>
  The datagrams that the program selects: with the port at the place that it has behind an IP header
  without options; and the record that it submits.
\<close>

definition selected :: "bytes \<Rightarrow> bool" where
  "selected p \<longleftrightarrow> 42 \<le> length p \<and> wire_u16 p 12 = ETH_P_IP \<and> p ! 23 = IPPROTO_UDP
     \<and> wire_u16 p 36 = EDGE_TELEMETRY_UDP_PORT"

definition meta_of :: "bool \<Rightarrow> u64 \<Rightarrow> bytes \<Rightarrow> telemetry_meta" where
  "meta_of big now p = \<lparr>tm_src_ip = host_word big (take 4 (drop 26 p)), tm_dst_ip = host_word big (take 4 (drop 30 p)),
     tm_src_port = wire_u16 p 34, tm_dst_port = EDGE_TELEMETRY_UDP_PORT, tm_payload_len = wire_u16 p 38 - 8,
     tm_timestamp_ns = now\<rparr>"

lemma submit_meta_wire:
  assumes "42 \<le> length p"
  shows "submit_meta big True now p 14 34 EDGE_TELEMETRY_UDP_PORT = Some (XDP_PASS, Some (meta_of big now p))"
proof -
  obtain s where s: "load_u16 big p 34 = Some s" "bpf_ntohs big s = wire_u16 p 34"
    by (rule load_u16_wire[of 34 p big]) (use assms in simp)
  obtain l where "load_u16 big p 38 = Some l" "bpf_ntohs big l = wire_u16 p 38"
    by (rule load_u16_wire[of 38 p big]) (use assms in simp)
  with s assms show ?thesis
    by (simp add: submit_meta_def load_u32_def load_bytes_def meta_of_def sizeof_udphdr_def)
qed

lemma xdp_filter_wire:
  "xdp_filter_telemetry big reserved now p =
     Some (XDP_PASS, if reserved \<and> selected p then Some (meta_of big now p) else None)"
proof (cases "42 \<le> length p")
  case True
  obtain h where h: "load_u16 big p 12 = Some h" "\<forall>x. h = bpf_htons big x \<longleftrightarrow> wire_u16 p 12 = x"
    by (rule load_u16_wire[of 12 p big]) (use True in simp)
  obtain d where d: "load_u16 big p 36 = Some d" "bpf_ntohs big d = wire_u16 p 36"
    by (rule load_u16_wire[of 36 p big]) (use True in simp)
  have "load_u8 p 23 = Some (p ! 23)"
    using True by (simp add: load_u8_def load_bytes_def host_word_def take_Suc_conv_app_nth[of 0, simplified])
  with h d True submit_meta_wire[OF True] show ?thesis
    by (simp add: xdp_filter_telemetry_def Let_def selected_def sizeof_ethhdr_def sizeof_iphdr_def
        sizeof_udphdr_def submit_meta_def)
next
  case False
  then show ?thesis
    by (simp add: xdp_filter_telemetry_def Let_def selected_def sizeof_ethhdr_def sizeof_iphdr_def
        sizeof_udphdr_def load_u16_def load_u8_def load_bytes_def)
qed

section \<open>What the standards make of a packet\<close>

text \<open>
  An IPv4 header says in its first byte its version and how many words of 32 bits it has, and in bytes
  6 and 7 where in the datagram its fragment lies; the UDP header is behind it in the fragment that
  comes first.
\<close>

definition ip_header_bytes :: "bytes \<Rightarrow> nat" where
  "ip_header_bytes p = 4 * unat (p ! 14 AND 0x0F)"

definition fragment_offset :: "bytes \<Rightarrow> u16" where
  "fragment_offset p = wire_u16 p 20 AND 0x1FFF"

definition udp_to :: "u16 \<Rightarrow> bytes \<Rightarrow> bool" where
  "udp_to port p \<longleftrightarrow> sizeof_iphdr \<le> ip_header_bytes p \<and> 14 + ip_header_bytes p + 8 \<le> length p
     \<and> wire_u16 p 12 = ETH_P_IP \<and> drop_bit 4 (p ! 14) = 4 \<and> fragment_offset p = 0 \<and> p ! 23 = IPPROTO_UDP
     \<and> wire_u16 p (14 + ip_header_bytes p + 2) = port"

definition reported :: "bool \<Rightarrow> bytes \<Rightarrow> bool" where
  "reported big p = (case xdp_filter_telemetry big True 0 p of Some (_, Some _) \<Rightarrow> True | _ \<Rightarrow> False)"

lemma reported_iff: "reported big p \<longleftrightarrow> selected p"
  by (simp add: reported_def xdp_filter_wire)

text \<open>
  Packets of an Ethernet header, an IP header with the given first byte, fragment bytes and options,
  and ports: with options, and the continuation of a fragmented datagram.
\<close>

definition packet_with :: "u8 \<Rightarrow> bytes \<Rightarrow> bytes \<Rightarrow> bytes \<Rightarrow> bytes" where
  "packet_with first fragment options rest =
     replicate 12 0 @ [0x08, 0x00] @ [first, 0, 0, 0, 0, 0] @ fragment @ [64, 17, 0, 0]
     @ [192, 168, 1, 100, 10, 0, 0, 1] @ options @ rest"

definition telemetry_ports :: bytes where
  "telemetry_ports = [0x30, 0x39, 0xBA, 0xCD, 0, 8, 0, 0]"

definition other_ports :: bytes where
  "other_ports = [0x30, 0x39, 0, 53, 0, 8, 0, 0]"

section \<open>Properties\<close>

text \<open>C11: The kernel program is safe for every packet, on machines of either byte order: it never reads
  outside of the packet and always passes the packet on. It submits a record exactly when the ring
  buffer has room and the bytes behind an IP header of 20 bytes hold the telemetry port; the record
  has the ports and, if the UDP length covers its header, the payload's length in host order, and
  the addresses as they lie on the wire. A UDP length below 8 wraps to at least 65528.\<close>

theorem xdp_filter_safe:
  "\<exists>r. xdp_filter_telemetry big reserved now p = Some (XDP_PASS, r)
    \<and> (r \<noteq> None \<longleftrightarrow> reserved \<and> selected p)
    \<and> (\<forall>m. r = Some m \<longrightarrow> tm_src_port m = wire_u16 p 34 \<and> tm_dst_port m = EDGE_TELEMETRY_UDP_PORT
      \<and> tm_src_ip m = host_word big (take 4 (drop 26 p)) \<and> tm_dst_ip m = host_word big (take 4 (drop 30 p))
      \<and> tm_timestamp_ns m = now
      \<and> (if 8 \<le> wire_u16 p 38 then unat (tm_payload_len m) + 8 = unat (wire_u16 p 38)
         else 65528 \<le> tm_payload_len m))"
proof -
  have "unat (wire_u16 p 38 - 8) + 8 = unat (wire_u16 p 38)" if "8 \<le> wire_u16 p 38"
    using that by (simp add: unat_sub word_le_nat_alt)
  moreover have "65528 \<le> wire_u16 p 38 - 8" if "\<not> 8 \<le> wire_u16 p 38"
    using that unsigned_less[of "wire_u16 p 38", where 'a = nat]
    by (simp add: word_le_nat_alt unat_sub_if' )
  ultimately show ?thesis by (simp add: xdp_filter_wire meta_of_def)
qed

theorem xdp_filter_safe_witness:
  "\<exists>m. xdp_filter_telemetry False True 5 (packet_with 0x45 [0, 0] [] telemetry_ports) = Some (XDP_PASS, Some m)
    \<and> tm_src_port m = 12345 \<and> tm_payload_len m = 0"
proof -
  let ?p = "packet_with 0x45 [0, 0] [] telemetry_ports"
  have s: "selected ?p" "wire_u16 ?p 34 = 12345" "wire_u16 ?p 38 = 8" by code_simp+
  then show ?thesis using xdp_filter_safe[of False True 5 ?p] by (auto simp: unat_eq_0)
qed

text \<open>C19: The kernel program against the standards: on packets that are no continuation of a fragmented
  datagram and whose IP header has version 4 and no options, it reports exactly the UDP datagrams to the
  telemetry port. It needs all of that: with options it misses datagrams to the port and
  reports datagrams to others, and it reports continuations of fragments, which have no ports.\<close>

theorem xdp_filter_standard:
  "(p ! 14 = 0x45 \<and> fragment_offset p = 0 \<longrightarrow> reported big p = udp_to EDGE_TELEMETRY_UDP_PORT p)
    \<and> (\<exists>p. udp_to EDGE_TELEMETRY_UDP_PORT p \<and> \<not> reported big p)
    \<and> (\<exists>p. udp_to 53 p \<and> reported big p)
    \<and> (\<exists>p. p ! 14 = 0x45 \<and> fragment_offset p \<noteq> 0 \<and> reported big p)"
proof (intro conjI impI)
  assume "p ! 14 = 0x45 \<and> fragment_offset p = 0"
  moreover from this have "ip_header_bytes p = 20" "drop_bit 4 (p ! 14) = 4" by (simp_all add: ip_header_bytes_def)
  ultimately show "reported big p = udp_to EDGE_TELEMETRY_UDP_PORT p"
    by (auto simp: reported_iff selected_def udp_to_def sizeof_iphdr_def)
next
  have "udp_to EDGE_TELEMETRY_UDP_PORT (packet_with 0x46 [0, 0] [1, 1, 1, 1] telemetry_ports)
      \<and> \<not> selected (packet_with 0x46 [0, 0] [1, 1, 1, 1] telemetry_ports)" by code_simp
  then show "\<exists>p. udp_to EDGE_TELEMETRY_UDP_PORT p \<and> \<not> reported big p" by (auto simp: reported_iff)
next
  have "udp_to 53 (packet_with 0x47 [0, 0] telemetry_ports other_ports)
      \<and> selected (packet_with 0x47 [0, 0] telemetry_ports other_ports)" by code_simp
  then show "\<exists>p. udp_to 53 p \<and> reported big p" by (auto simp: reported_iff)
next
  have "packet_with 0x45 [0, 185] [] telemetry_ports ! 14 = 0x45
      \<and> fragment_offset (packet_with 0x45 [0, 185] [] telemetry_ports) \<noteq> 0
      \<and> selected (packet_with 0x45 [0, 185] [] telemetry_ports)" by code_simp
  then show "\<exists>p. p ! 14 = 0x45 \<and> fragment_offset p \<noteq> 0 \<and> reported big p" by (auto simp: reported_iff)
qed

theorem xdp_filter_standard_witness:
  "reported False (packet_with 0x45 [0, 0] [] telemetry_ports)"
proof -
  let ?p = "packet_with 0x45 [0, 0] [] telemetry_ports"
  have "?p ! 14 = 0x45 \<and> fragment_offset ?p = 0 \<and> udp_to EDGE_TELEMETRY_UDP_PORT ?p" by code_simp
  with xdp_filter_standard[of ?p False] show ?thesis by simp
qed

end
