(* ===== verification/TimeUtil.thy ===== *)
theory TimeUtil
  imports FloatText
begin

text \<open>
  The time helpers (\<^verbatim>\<open>crates/helpers/src/time.rs\<close>). The system clock is its distance from the epoch in
  nanoseconds, negative before it; an \<^verbatim>\<open>Instant\<close> is a number of nanoseconds on the monotonic clock.
  The last section bounds the error of a printed duration.
\<close>

definition now_ns :: "int \<Rightarrow> panic + u64" where
  "now_ns system = (if system < 0 then Inl Unwrap_On_Error else Inr (word_of_int system))"

definition now_ms :: "int \<Rightarrow> panic + u64" where
  "now_ms system = (if system < 0 then Inl Unwrap_On_Error else Inr (word_of_int (system div 1000000)))"

text \<open>\<^verbatim>\<open>Instant::elapsed\<close> saturates.\<close>

definition elapsed_ns :: "int \<Rightarrow> int \<Rightarrow> u64" where
  "elapsed_ns now since = word_of_int (max 0 (now - since))"

definition elapsed_ms :: "int \<Rightarrow> int \<Rightarrow> u64" where
  "elapsed_ms now since = word_of_int (max 0 (now - since) div 1000000)"

text \<open>
  Subtracting from an \<^verbatim>\<open>Instant\<close> panics below the earliest one that the platform represents: its
  \<^verbatim>\<open>checked_sub\<close> is expected to succeed.
\<close>

definition instant_from_ns_ago :: "int \<Rightarrow> int \<Rightarrow> u64 \<Rightarrow> panic + int" where
  "instant_from_ns_ago earliest now ns =
     (if now - uint ns < earliest then Inl Unwrap_On_Error else Inr (now - uint ns))"

text \<open>The instant found is as long ago as was asked for.\<close>

lemma elapsed_since_ns_ago:
  "instant_from_ns_ago earliest now ns = Inr i \<Longrightarrow> elapsed_ns now i = ns"
  by (auto simp: instant_from_ns_ago_def elapsed_ns_def split: if_splits)

text \<open>A duration; the nanoseconds stay below a second.\<close>

record duration =
  secs :: u64
  nanos :: u32

definition as_millis :: "duration \<Rightarrow> u128" where
  "as_millis d = ucast (secs d) * 1000 + ucast (nanos d div 1000000)"

definition as_secs_f64 :: "duration \<Rightarrow> f64" where
  "as_secs_f64 d = fp_add binary64 (f64_of_int (uint (secs d)))
     (fp_div_lit binary64 (f64_of_int (uint (nanos d))) 1000000000)"

definition format_duration :: "duration \<Rightarrow> string" where
  "format_duration d =
     (if secs d > 60 then show_fixed 2 (fp_div_lit binary64 (as_secs_f64 d) 60) @ ''m''
      else if secs d > 1 then show_fixed 2 (as_secs_f64 d) @ ''s''
      else if as_millis d > 1 then show_fixed 2 (fp_mul binary64 (as_secs_f64 d) (f64_lit 1000)) @ ''ms''
      else show_fixed 2 (fp_mul binary64 (as_secs_f64 d) (f64_lit 1000000))
             @ string_of_bytes [0xC2, 0xB5] @ ''s'')"

definition duration_ns :: "duration \<Rightarrow> nat" where
  "duration_ns d = unat (secs d) * 1000000000 + unat (nanos d)"

lemma unat_as_millis:
  assumes "nanos d < 1000000000"
  shows "unat (as_millis d) = duration_ns d div 1000000"
proof -
  have s: "unat (secs d) < 2 ^ 64" using unsigned_less[of "secs d"] by simp
  have n: "unat (nanos d) < 1000000000" using assms by (simp add: word_less_nat_alt)
  have "unat (ucast (secs d) * 1000 :: u128) = unat (secs d) * 1000"
    using s by (simp add: unat_word_ariths unsigned_ucast_eq take_bit_nat_def)
  moreover have "unat (ucast (nanos d div 1000000) :: u128) = unat (nanos d) div 1000000"
    using n by (simp add: unsigned_ucast_eq take_bit_nat_def unat_div)
  moreover have "unat (secs d) * 1000 + unat (nanos d) div 1000000 < 2 ^ 128" using s n by simp
  ultimately show ?thesis
    by (simp add: as_millis_def duration_ns_def unat_word_ariths)
qed

text \<open>The seconds of a duration as a double: two roundings.\<close>

lemma as_secs_f64_accurate:
  assumes "nanos d < 1000000000"
  obtains c where "as_secs_f64 d = Fin c" "0 \<le> c" "c = 0 \<or> 1 / 10 ^ 11 \<le> c" "c \<le> 2 ^ 67" "fround binary64 c = c"
    "\<bar>c - of_nat (duration_ns d) / 10 ^ 9\<bar> \<le> of_nat (duration_ns d) / 10 ^ 9 * (3 / 2 ^ 53)"
proof -
  define S N where "S = (of_int (uint (secs d)) :: rat)" and "N = (of_int (uint (nanos d)) / 10 ^ 9 :: rat)"
  have ns: "of_nat (duration_ns d) / 10 ^ 9 = S + N"
    by (simp add: duration_ns_def S_def N_def add_divide_distrib)
  have int_rat: "0 \<le> (of_int n :: rat) \<and> (of_int n :: rat) < of_int k \<and> ((of_int n :: rat) = 0 \<or> 1 \<le> (of_int n :: rat))"
    if "0 \<le> n" "n < k" for n k :: int
    using that by (simp only: of_int_less_iff of_int_0_le_iff of_int_1_le_iff of_int_eq_0_iff) presburger
  have S: "0 \<le> S" "S < 2 ^ 64" "S = 0 \<or> 1 \<le> S"
    using int_rat[of "uint (secs d)" "2 ^ 64"] uint_lt2p[of "secs d"] by (auto simp: S_def)
  have "0 \<le> 10 ^ 9 * N \<and> 10 ^ 9 * N < 10 ^ 9 \<and> (N = 0 \<or> 1 \<le> 10 ^ 9 * N)"
    using int_rat[of "uint (nanos d)" "10 ^ 9"] assms by (auto simp: N_def word_less_def)
  then have N: "0 \<le> N" "N < 1" "N = 0 \<or> 1 / 10 ^ 9 \<le> N" by auto
  define a b where "a = fround binary64 S" and "b = fround binary64 N"
  have a: "\<bar>a - S\<bar> \<le> S / 2 ^ 53" using fround64_error[of S] S by (auto simp: a_def)
  have a': "f64_of_int (uint (secs d)) = Fin a"
    unfolding f64_of_int_def S_def[symmetric] a_def using S by (intro fp64_small(1)) auto
  have n: "f64_of_int (uint (nanos d)) = Fin (10 ^ 9 * N)"
    using f64_of_int_exact[of "uint (nanos d)"] assms by (simp add: N_def word_less_def)
  have b: "\<bar>b - N\<bar> \<le> N / 2 ^ 53" "fp_div_lit binary64 (f64_of_int (uint (nanos d))) 1000000000 = Fin b"
    using fround64_error[of N] fp64_small(1)[of N] N by (auto simp: b_def n fp_div_lit_def)
  have ab: "0 \<le> a" "0 \<le> b" "a \<le> 2 ^ 65" "b \<le> 2"
    using near64[OF a S(1)] near64[OF b(1) N(1)] S N by simp_all
  moreover have "a = 0 \<or> 1 / 2 \<le> a" "b = 0 \<or> 1 / 10 ^ 10 \<le> b"
    using near64[OF a S(1)] near64[OF b(1) N(1)] S(3) N(3) by auto
  ultimately have sum: "0 \<le> a + b" "a + b \<le> 2 ^ 100" "a + b = 0 \<or> 1 / 10 ^ 10 \<le> a + b" by auto
  then have c: "\<bar>fround binary64 (a + b) - (a + b)\<bar> \<le> (a + b) / 2 ^ 53" "as_secs_f64 d = Fin (fround binary64 (a + b))"
    using fround64_error[of "a + b"] fp64_small(1)[of "a + b"] a' b(2) by (auto simp: as_secs_f64_def)
  show thesis
  proof (rule that[OF c(2)])
    show "fround binary64 (fround binary64 (a + b)) = fround binary64 (a + b)" by (simp add: fround_idem)
    show "0 \<le> fround binary64 (a + b)" using near64[OF c(1) sum(1)] sum by linarith
    show "fround binary64 (a + b) \<le> 2 ^ 67" using near64[OF c(1) sum(1)] ab by simp
    show "fround binary64 (a + b) = 0 \<or> 1 / 10 ^ 11 \<le> fround binary64 (a + b)"
    proof (cases "a + b = 0")
      case False
      then have "1 / 10 ^ 10 \<le> a + b" using sum(3) by blast
      then show ?thesis using near64(1)[OF c(1) sum(1)] by simp
    qed (simp only: fround_0 simp_thms)
    show "\<bar>fround binary64 (a + b) - of_nat (duration_ns d) / 10 ^ 9\<bar> \<le> of_nat (duration_ns d) / 10 ^ 9 * (3 / 2 ^ 53)"
    proof -
      have "\<bar>a + b - (S + N)\<bar> \<le> \<bar>a - S\<bar> + \<bar>b - N\<bar>" using abs_triangle_ineq[of "a - S" "b - N"] by simp
      also have "\<dots> \<le> (S + N) * (1 / 2 ^ 53)" using a b(1) by simp
      finally show ?thesis
        unfolding ns by (rule rel_trans[where e = "1 / 2 ^ 53"]) (use c(1) S(1) N(1) in simp_all)
    qed
  qed
qed

text \<open>The unit a duration is printed in, with its nanoseconds.\<close>

definition duration_unit :: "duration \<Rightarrow> string \<times> nat" where
  "duration_unit d =
     (if 61 * 10 ^ 9 \<le> duration_ns d then (''m'', 60 * 10 ^ 9)
      else if 2 * 10 ^ 9 \<le> duration_ns d then (''s'', 10 ^ 9)
      else if 2 * 10 ^ 6 \<le> duration_ns d then (''ms'', 10 ^ 6)
      else (string_of_bytes [0xC2, 0xB5] @ ''s'', 10 ^ 3))"

lemma printed_near:
  assumes c: "\<bar>c - v\<bar> \<le> v * (3 / 2 ^ 53)" and v: "0 \<le> v" and k: "0 < k"
    and r: "\<bar>r - c * k\<bar> \<le> c * k / 2 ^ 53" and r0: "0 \<le> r"
  shows "\<exists>w. parse_decimal (show_fixed 2 (Fin r)) = Some w \<and> \<bar>w - v * k\<bar> \<le> 1 / 200 + v * k / 2 ^ 50"
proof -
  have "\<bar>c * k - v * k\<bar> = \<bar>c - v\<bar> * k" using k by (simp add: abs_mult flip: left_diff_distrib)
  also have "\<dots> \<le> v * (3 / 2 ^ 53) * k" using c k by (intro mult_right_mono) auto
  finally have ck: "\<bar>c * k - v * k\<bar> \<le> v * k * (3 / 2 ^ 53)" by (simp add: mult.commute mult.left_commute)
  have rv: "\<bar>r - v * k\<bar> \<le> v * k * (1 / 2 ^ 50)"
  proof (rule rel_trans[OF ck])
    show "\<bar>r - c * k\<bar> \<le> c * k * (1 / 2 ^ 53)" using r by simp
    show "0 \<le> v * k" using v k by simp
  qed simp_all
  obtain w where w: "parse_decimal (show_fixed 2 (Fin r)) = Some w" "\<bar>w - r\<bar> \<le> 1 / 200"
    using show_fixed_near[OF r0, of 2] by auto
  then have "\<bar>w - v * k\<bar> \<le> 1 / 200 + v * k / 2 ^ 50"
    using rv abs_triangle_ineq[of "w - r" "r - v * k"] by simp
  with w(1) show ?thesis by blast
qed

text \<open>C39: The text of a duration is accurate: it is a decimal number with the unit's name, which reads back
  to the duration in that unit up to half of the last decimal printed and a relative error of
  \<open>1 / 2 ^ 50\<close> from the double arithmetic on the way, for every duration there is. The unit is the
  largest of minutes, seconds and milliseconds that the duration exceeds by a whole unit, except
  that minutes start at 61 s; below that it is microseconds.\<close>

theorem format_duration_accurate:
  assumes "nanos d < 1000000000" and "duration_unit d = (unit, n)"
  shows "\<exists>s v. format_duration d = s @ unit \<and> parse_decimal s = Some v
    \<and> \<bar>v - of_nat (duration_ns d) / of_nat n\<bar> \<le> 1 / 200 + of_nat (duration_ns d) / of_nat n / 2 ^ 50"
proof -
  obtain c where c: "as_secs_f64 d = Fin c" "0 \<le> c" "c = 0 \<or> 1 / 10 ^ 11 \<le> c" "c \<le> 2 ^ 67" "fround binary64 c = c"
    "\<bar>c - of_nat (duration_ns d) / 10 ^ 9\<bar> \<le> of_nat (duration_ns d) / 10 ^ 9 * (3 / 2 ^ 53)"
    by (rule as_secs_f64_accurate[OF assms(1)])
  have lim: "secs d > 60 \<longleftrightarrow> 61 * 10 ^ 9 \<le> duration_ns d" "secs d > 1 \<longleftrightarrow> 2 * 10 ^ 9 \<le> duration_ns d"
    using assms(1) by (auto simp: word_less_nat_alt duration_ns_def)
  have lim': "as_millis d > 1 \<longleftrightarrow> 2 * 10 ^ 6 \<le> duration_ns d"
    using unat_as_millis[OF assms(1)] by (auto simp: word_less_nat_alt)
  have near: "\<exists>w. parse_decimal (show_fixed 2 (fp_of_rat binary64 (c * k))) = Some w
      \<and> \<bar>w - of_nat (duration_ns d) / 10 ^ 9 * k\<bar> \<le> 1 / 200 + of_nat (duration_ns d) / 10 ^ 9 * k / 2 ^ 50"
    if k: "1 / 60 \<le> k" "k \<le> 10 ^ 6" for k
  proof -
    have "c * k \<le> 2 ^ 67 * 10 ^ 6" using c(2,4) k by (intro mult_mono) auto
    then have ck: "0 \<le> c * k" "c * k \<le> 2 ^ 100" using c(2) k by auto
    have "c * k = 0 \<or> 1 / 10 ^ 13 \<le> c * k"
    proof (cases "c = 0")
      case False
      then have "1 / 10 ^ 11 * (1 / 60) \<le> c * k" using c(3) k by (intro mult_mono) auto
      moreover have "(1 :: rat) / 10 ^ 13 \<le> 1 / 10 ^ 11 * (1 / 60)" by simp
      ultimately show ?thesis by linarith
    qed simp
    then show ?thesis
      using printed_near[OF c(6) _ _ fround64_error fp64_small(2)[OF ck]] k fp64_small(1)[OF ck]
      by simp
  qed
  have c1: "fp_of_rat binary64 (c * 1) = Fin c" using c(2,4,5) fp64_small(1)[of c] by simp
  have found: "\<exists>k. 1 / 60 \<le> k \<and> k \<le> 10 ^ 6 \<and> of_nat n = 10 ^ 9 / k
      \<and> format_duration d = show_fixed 2 (fp_of_rat binary64 (c * k)) @ unit"
  proof -
    consider "61 * 10 ^ 9 \<le> duration_ns d" | "\<not> 61 * 10 ^ 9 \<le> duration_ns d" "2 * 10 ^ 9 \<le> duration_ns d"
      | "\<not> 2 * 10 ^ 9 \<le> duration_ns d" "2 * 10 ^ 6 \<le> duration_ns d" | "\<not> 2 * 10 ^ 6 \<le> duration_ns d"
      by linarith
    then show ?thesis
    proof cases
      case 1
      then show ?thesis
        using assms(2) lim c(1) by (intro exI[of _ "1 / 60"]) (simp add: duration_unit_def format_duration_def fp_div_lit_def)
    next
      case 2
      then show ?thesis
        using assms(2) lim c(1) c1 by (intro exI[of _ 1]) (simp add: duration_unit_def format_duration_def)
    next
      case 3
      then show ?thesis
        using assms(2) lim lim' c(1) by (intro exI[of _ 1000]) (simp add: duration_unit_def format_duration_def)
    next
      case 4
      then show ?thesis
        using assms(2) lim lim' c(1) by (intro exI[of _ 1000000]) (auto simp: duration_unit_def format_duration_def)
    qed
  qed
  then obtain k where k: "1 / 60 \<le> k" "k \<le> 10 ^ 6" "of_nat n = 10 ^ 9 / k"
    "format_duration d = show_fixed 2 (fp_of_rat binary64 (c * k)) @ unit" by blast
  have "of_nat (duration_ns d) / of_nat n = of_nat (duration_ns d) / 10 ^ 9 * k" unfolding k(3) by simp
  with near[OF k(1,2)] k(4) show ?thesis by metis
qed

theorem format_duration_accurate_witness:
  "\<exists>s v. format_duration \<lparr>secs = 90, nanos = 0\<rparr> = s @ ''m'' \<and> parse_decimal s = Some v \<and> \<bar>v - 3 / 2\<bar> \<le> 1 / 100"
proof -
  have u: "duration_unit \<lparr>secs = 90, nanos = 0\<rparr> = (''m'', 60 * 10 ^ 9)" "duration_ns \<lparr>secs = 90, nanos = 0\<rparr> = 90 * 10 ^ 9"
    by (simp_all add: duration_unit_def duration_ns_def)
  show ?thesis using format_duration_accurate[OF _ u(1)] u(2) by fastforce
qed

end
