(* ===== verification/Metrics.thy ===== *)
theory Metrics
  imports Float64 Text
begin

text \<open>
  The metrics helpers (\<^verbatim>\<open>crates/helpers/src/metrics.rs\<close>). They are placeholders: registering succeeds
  without a registry, recording does nothing, and the export is a constant.
\<close>

datatype metrics_registry = Metrics_Registry

definition metrics_new :: metrics_registry where
  "metrics_new = Metrics_Registry"

definition metrics_default :: metrics_registry where
  "metrics_default = metrics_new"

definition register_edge_agent_counters :: "metrics_registry \<Rightarrow> string + unit" where
  "register_edge_agent_counters r = Inr ()"

definition register_network_gauges :: "metrics_registry \<Rightarrow> string + unit" where
  "register_network_gauges r = Inr ()"

definition register_latency_histogram :: "metrics_registry \<Rightarrow> string + unit" where
  "register_latency_histogram r = Inr ()"

definition observe_latency :: "f64 \<Rightarrow> unit" where
  "observe_latency latency_ms = ()"

definition record_mode_transition :: "string \<Rightarrow> string \<Rightarrow> unit" where
  "record_mode_transition old_mode new_mode = ()"

definition record_frame_processed :: "string \<Rightarrow> usize \<Rightarrow> unit" where
  "record_frame_processed source bytes = ()"

definition record_pqc_event :: "string \<Rightarrow> unit" where
  "record_pqc_event event_type = ()"

definition record_tee_event :: "string \<Rightarrow> f64 \<Rightarrow> unit" where
  "record_tee_event event_type duration_ms = ()"

definition record_zk_event :: "string \<Rightarrow> bool \<Rightarrow> unit" where
  "record_zk_event event_type verified = ()"

definition export_metrics :: string where
  "export_metrics =
     ''# HELP sovereignedge_frames_processed Total frames processed'' @ [CHR 0x0A]
     @ ''# TYPE sovereignedge_frames_processed counter'' @ [CHR 0x0A]
     @ ''sovereignedge_frames_processed 0'' @ [CHR 0x0A]"

end
