(* ===== verification/LeanModels.thy ===== *)
theory LeanModels
  imports EdgeAgent PqcTransport ZkProofs
begin

text \<open>
  The repository's own Lean models (\<^verbatim>\<open>verification/SovereignEdge\<close>) of four algorithms, translated from
  Lean: natural numbers for sizes, counters and network qualities, integers for thresholds. The
  lemmas relate the models of the Rust code, with its machine integers and floating-point numbers, to
  them: they say under what conditions the code does what the Lean model does, so that what is proved
  there holds for the code, and where the two differ.
\<close>

section \<open>\<^verbatim>\<open>ContextBuffer.lean\<close>\<close>

text \<open>Frames are their payloads' sizes, the oldest first.\<close>

fun lean_total :: "nat list \<Rightarrow> nat" where
  "lean_total [] = 0"
| "lean_total (x # xs) = x + lean_total xs"

fun lean_evict_bytes :: "nat \<Rightarrow> nat \<Rightarrow> nat list \<Rightarrow> nat list" where
  "lean_evict_bytes maxBytes newSize [] = []"
| "lean_evict_bytes maxBytes newSize (x # xs) =
     (if lean_total (x # xs) + newSize > maxBytes then lean_evict_bytes maxBytes newSize xs else x # xs)"

fun lean_evict_frames :: "nat \<Rightarrow> nat list \<Rightarrow> nat list" where
  "lean_evict_frames maxFrames [] = []"
| "lean_evict_frames maxFrames (x # xs) =
     (if length xs + 1 \<ge> maxFrames then lean_evict_frames maxFrames xs else x # xs)"

definition lean_push :: "nat \<Rightarrow> nat \<Rightarrow> nat \<Rightarrow> nat list \<Rightarrow> nat list" where
  "lean_push maxFrames maxBytes newSize fs =
     lean_evict_frames maxFrames (lean_evict_bytes maxBytes newSize fs) @ [newSize]"

text \<open>The abstraction of a buffer of the code.\<close>

definition sizes :: "telemetry_frame list \<Rightarrow> nat list" where
  "sizes fs = map (\<lambda>f. length (payload f)) fs"

lemma lean_total_sizes: "lean_total (sizes fs) = payload_bytes fs"
  by (induction fs) (simp_all add: sizes_def)

text \<open>The two loops of Lean keep together the longest tail with room for the new frame.\<close>

lemma lean_evict_fitting:
  "lean_evict_frames mf (lean_evict_bytes mb n (sizes fs)) = sizes (fitting_suffix mf mb n fs)"
proof (induction fs)
  case (Cons f fs)
  have "lean_evict_frames mf (sizes (f # fs)) = sizes (fitting_suffix mf mb n (f # fs))"
    if "payload_bytes (f # fs) + n \<le> mb"
    using that
  proof (induction fs arbitrary: f)
    case (Cons g fs)
    then show ?case by (auto simp: sizes_def has_room_def not_less)
  qed (simp add: sizes_def has_room_def)
  then show ?case
    using Cons lean_total_sizes[of "f # fs"] by (auto simp: sizes_def has_room_def)
qed (simp add: sizes_def)

lemma push_sizes:
  assumes "buffer_inv b" and "frame_ok f"
  shows "sizes (frames (buffer_push b f))
    = lean_push (unat (max_frames b)) (unat (max_bytes b)) (length (payload f)) (sizes (frames b))"
  using buffer_push_spec(1)[OF assms] by (simp add: lean_push_def lean_evict_fitting) (simp add: sizes_def)

text \<open>C18: The context buffer refines the Lean model: after any sequence of pushes to a new buffer, the
  sizes of the frames it holds are those of the Lean model after the same pushes, and its byte
  counter, a machine integer kept by saturating subtraction, is Lean's total - which Lean computes
  anew each time.\<close>

theorem buffer_refines_lean:
  assumes "unat mb \<le> isize_max" and "list_all frame_ok fs"
    and "b = foldl buffer_push (buffer_new mf mb) fs"
  shows "sizes (frames b) = foldl (\<lambda>l n. lean_push (unat mf) (unat mb) n l) [] (sizes fs)
    \<and> unat (total_bytes b) = lean_total (sizes (frames b))"
proof -
  have inv: "buffer_inv (foldl buffer_push (buffer_new mf mb) fs)"
    by (rule ctx.inv_pushes[OF buffer_new_inv[OF assms(1)] assms(2)])
  have caps: "max_frames (foldl buffer_push (buffer_new mf mb) gs) = mf"
    "max_bytes (foldl buffer_push (buffer_new mf mb) gs) = mb" for gs
    by (induction gs rule: rev_induct) (simp_all add: buffer_new_def)
  have "sizes (frames (foldl buffer_push (buffer_new mf mb) fs))
      = foldl (\<lambda>l n. lean_push (unat mf) (unat mb) n l) [] (sizes fs)"
    using assms(2)
  proof (induction fs rule: rev_induct)
    case (snoc f fs)
    then have "buffer_inv (foldl buffer_push (buffer_new mf mb) fs)"
      by (intro ctx.inv_pushes buffer_new_inv assms(1)) simp
    from push_sizes[OF this, of f] snoc show ?case by (simp add: caps) (simp add: sizes_def)
  qed (simp add: sizes_def buffer_new_def)
  with inv lean_total_sizes[of "frames (foldl buffer_push (buffer_new mf mb) fs)"] show ?thesis
    by (simp add: assms(3) buffer_inv_def)
qed

theorem buffer_refines_lean_witness:
  "sizes (frames demo_buffer) = lean_push 10 1024 100 (lean_push 10 1024 100 (lean_push 10 1024 100 []))"
  using buffer_refines_lean[of 1024 "[demo_frame 1 100, demo_frame 2 100, demo_frame 3 100]" demo_buffer 10]
  by (simp add: demo_buffer_def frame_ok_def demo_frame_def isize_max_def) (simp add: sizes_def)

section \<open>\<^verbatim>\<open>ModeMachine.lean\<close>\<close>

text \<open>Latency and jitter in microseconds, the loss in millionths.\<close>

record lean_quality =
  latencyUs :: nat
  lossPpm :: nat
  jitterUs :: nat

definition lean_is_degraded :: "lean_quality \<Rightarrow> bool" where
  "lean_is_degraded q \<longleftrightarrow> latencyUs q > 200000 \<or> lossPpm q > 50000 \<or> jitterUs q > 50000"

definition lean_is_offline :: "lean_quality \<Rightarrow> bool" where
  "lean_is_offline q \<longleftrightarrow> latencyUs q > 5000000 \<or> lossPpm q > 500000"

datatype lean_mode = lean_online | lean_degraded | lean_offline

definition lean_determine_mode :: "lean_quality \<Rightarrow> lean_mode" where
  "lean_determine_mode q =
     (if lean_is_offline q then lean_offline else if lean_is_degraded q then lean_degraded else lean_online)"

text \<open>A finite metric in units of \<open>1 / k\<close>, rounded up so that no threshold is crossed.\<close>

definition micro :: "rat \<Rightarrow> f64 \<Rightarrow> nat" where
  "micro k x = (case x of Fin q \<Rightarrow> nat \<lceil>q * k\<rceil> | _ \<Rightarrow> 0)"

definition abs_quality :: "network_quality \<Rightarrow> lean_quality" where
  "abs_quality q = \<lparr>latencyUs = micro 1000 (latency_ms q), lossPpm = micro 10000 (packet_loss_pct q),
     jitterUs = micro 1000 (jitter_ms q)\<rparr>"

fun abs_mode :: "agent_mode \<Rightarrow> lean_mode option" where
  "abs_mode Online = Some lean_online"
| "abs_mode Degraded = Some lean_degraded"
| "abs_mode Offline = Some lean_offline"
| "abs_mode Transitioning = None"

lemma micro_above: "0 < k \<Longrightarrow> micro k (Fin q) > n \<longleftrightarrow> of_nat n / k < q"
proof -
  assume k: "0 < k"
  have "n < nat \<lceil>q * k\<rceil> \<longleftrightarrow> int n < \<lceil>q * k\<rceil>" by linarith
  also have "\<dots> \<longleftrightarrow> of_nat n < q * k" by (simp add: less_ceiling_iff)
  finally show ?thesis using k by (simp add: micro_def divide_less_eq)
qed

lemma determine_mode_lean:
  assumes "latency_ms (ag_quality a) = Fin x" and "packet_loss_pct (ag_quality a) = Fin y"
    and "jitter_ms (ag_quality a) = Fin z"
  shows "abs_mode (determine_mode a) = Some (lean_determine_mode (abs_quality (ag_quality a)))"
  using assms
  by (simp add: determine_mode_def is_offline_def is_degraded_def lean_determine_mode_def lean_is_offline_def
      lean_is_degraded_def abs_quality_def micro_above)

text \<open>A NaN, which the Lean model does not have, crosses no threshold.\<close>

lemma nan_stays_online:
  "latency_ms (ag_quality a) = NaN \<Longrightarrow> packet_loss_pct (ag_quality a) = NaN \<Longrightarrow> jitter_ms (ag_quality a) = NaN
    \<Longrightarrow> determine_mode a = Online"
  by (simp add: determine_mode_def is_offline_def is_degraded_def)

section \<open>\<^verbatim>\<open>Nonce.lean\<close>\<close>

definition lean_limit :: nat where
  "lean_limit = 2 ^ 64"

fun lean_run :: "nat \<Rightarrow> nat \<Rightarrow> nat list" where
  "lean_run c 0 = []"
| "lean_run c (Suc k) = (if c \<ge> lean_limit then [] else c # lean_run (c + 1) k)"

lemma lean_run_upt: "c + k \<le> lean_limit \<Longrightarrow> lean_run c k = [c ..< c + k]"
  by (induction k arbitrary: c) (auto simp: upt_conv_Cons)

text \<open>The nonces of a run, calls that fail and calls of the other direction included.\<close>

lemma encrypt_nonces_lean:
  assumes "session_run (pqc_encrypt cr) (pqc_decrypt cr) send_nonce s calls = (s', used)"
    and "unat (send_nonce s) \<le> 2 ^ 64"
  shows "map (unat \<circ> fst) used = lean_run (unat (send_nonce s)) (length used)"
proof -
  from sending.run_log[OF assms] have r: "map (unat \<circ> fst) used = [unat (send_nonce s) ..< unat (send_nonce s')]"
    "unat (send_nonce s) \<le> unat (send_nonce s')" "unat (send_nonce s') \<le> 2 ^ 64" by auto
  have "length used = unat (send_nonce s') - unat (send_nonce s)" using arg_cong[OF r(1), of length] by simp
  then show ?thesis using r by (simp add: lean_run_upt lean_limit_def)
qed

section \<open>\<^verbatim>\<open>Policy.lean\<close>\<close>

datatype lean_cmp = Gt | Ge | Lt | Le | Eq

fun lean_holds :: "lean_cmp \<Rightarrow> int \<Rightarrow> int \<Rightarrow> bool" where
  "lean_holds Gt a b = (a > b)"
| "lean_holds Ge a b = (a \<ge> b)"
| "lean_holds Lt a b = (a < b)"
| "lean_holds Le a b = (a \<le> b)"
| "lean_holds Eq a b = (a = b)"

datatype lean_constraint =
    LRange string int int
  | LThreshold string lean_cmp int
  | LAnd "lean_constraint list"
  | LOr "lean_constraint list"

fun lean_check :: "(string \<rightharpoonup> int) \<Rightarrow> lean_constraint \<Rightarrow> bool option"
  and lean_check_all :: "(string \<rightharpoonup> int) \<Rightarrow> lean_constraint list \<Rightarrow> bool option"
  and lean_check_any :: "(string \<rightharpoonup> int) \<Rightarrow> lean_constraint list \<Rightarrow> bool option" where
  "lean_check d (LRange f lo hi) = (case d f of None \<Rightarrow> None | Some v \<Rightarrow> Some (lo \<le> v \<and> v \<le> hi))"
| "lean_check d (LThreshold f op x) = (case d f of None \<Rightarrow> None | Some v \<Rightarrow> Some (lean_holds op v x))"
| "lean_check d (LAnd cs) = lean_check_all d cs"
| "lean_check d (LOr cs) = lean_check_any d cs"
| "lean_check_all d [] = Some True"
| "lean_check_all d (c # cs) =
     (case lean_check d c of None \<Rightarrow> None | Some b \<Rightarrow> if b then lean_check_all d cs else Some False)"
| "lean_check_any d [] = Some False"
| "lean_check_any d (c # cs) =
     (case lean_check d c of None \<Rightarrow> None | Some b \<Rightarrow> if b then Some True else lean_check_any d cs)"

text \<open>The constraint of the code that a Lean constraint stands for, and what Lean sees of an action.\<close>

fun cmp_text :: "lean_cmp \<Rightarrow> string" where
  "cmp_text Gt = ''>''"
| "cmp_text Ge = ''>=''"
| "cmp_text Lt = ''<''"
| "cmp_text Le = ''<=''"
| "cmp_text Eq = ''==''"

fun code_constraint :: "lean_constraint \<Rightarrow> policy_constraint" where
  "code_constraint (LRange f lo hi) = Range f (word_of_int lo) (word_of_int hi)"
| "code_constraint (LThreshold f op x) = Threshold f (cmp_text op) (f64_lit (of_int x))"
| "code_constraint (LAnd cs) = And (map code_constraint cs)"
| "code_constraint (LOr cs) = Or (map code_constraint cs)"

definition lean_data :: "action_data \<Rightarrow> string \<rightharpoonup> int" where
  "lean_data a = (\<lambda>f. map_option sint (numeric_values a f))"

text \<open>Bounds of ranges are integers of the code, thresholds below the doubles' last exact integer.\<close>

fun lean_bounded :: "lean_constraint \<Rightarrow> bool" where
  "lean_bounded (LRange f lo hi) \<longleftrightarrow> - (2 ^ 63) \<le> lo \<and> lo < 2 ^ 63 \<and> - (2 ^ 63) \<le> hi \<and> hi < 2 ^ 63"
| "lean_bounded (LThreshold f op x) \<longleftrightarrow> \<bar>x\<bar> < 2 ^ 53"
| "lean_bounded (LAnd cs) \<longleftrightarrow> list_all lean_bounded cs"
| "lean_bounded (LOr cs) \<longleftrightarrow> list_all lean_bounded cs"

text \<open>
  The cast of any \<^verbatim>\<open>i64\<close>, rounded or not, is on the same side of such a threshold as the integer: the
  integers next to the threshold are doubles, and rounding is monotone.
\<close>

lemma cast_order:
  assumes v: "\<bar>v\<bar> < 2 ^ 53" and z: "fround binary64 (of_int n) = of_int z"
  shows "z < v \<longleftrightarrow> n < v" "v < z \<longleftrightarrow> v < n"
proof -
  have p: "0 < fprec binary64" by (simp add: binary64_def)
  have rep: "fround binary64 (of_int (v - 1)) = of_int (v - 1)" "fround binary64 (of_int v) = of_int v"
    "fround binary64 (of_int (v + 1)) = of_int (v + 1)"
    using v by (intro fround64_int; simp)+
  have mono: "a \<le> b \<Longrightarrow> fround binary64 (of_int a) \<le> fround binary64 (of_int b)" for a b
    by (intro fround_mono p) simp
  have "n \<le> v - 1 \<Longrightarrow> z \<le> v - 1" "v \<le> n \<Longrightarrow> v \<le> z" "n \<le> v \<Longrightarrow> z \<le> v" "v + 1 \<le> n \<Longrightarrow> v + 1 \<le> z"
    using mono[of n "v - 1"] mono[of v n] mono[of n v] mono[of "v + 1" n]
    unfolding z rep by (simp_all only: of_int_le_iff)
  then show "z < v \<longleftrightarrow> n < v" "v < z \<longleftrightarrow> v < n" by linarith+
qed

lemma check_threshold_lean:
  assumes v: "\<bar>v\<bar> < 2 ^ 53"
  shows "check_threshold (cmp_text op) n (f64_lit (of_int v)) = Inr (lean_holds op (sint n) v)"
proof -
  have n: "\<bar>sint n\<bar> \<le> 2 ^ 63"
    using sint_greater_eq[of n] sint_less[of n] by simp
  obtain z where z: "fround binary64 (of_int (sint n)) = of_int z" using fround64_int_form by blast
  have lit: "f64_lit (of_int v) = Fin (of_int v)" using v by (intro f64_lit_of_int) simp
  have "fp_in binary64 (Fin (of_int v))" using v by (simp add: fp_in_def fround64_int)
  from sub_less_epsilon[OF this, of z]
  moreover have "(1 :: rat) \<le> \<bar>of_int z - of_int v\<bar>" if "z \<noteq> v"
  proof -
    have "1 \<le> \<bar>z - v\<bar>" using that by simp
    then show ?thesis by (metis of_int_1_le_iff of_int_abs of_int_diff)
  qed
  ultimately have eq: "fp_abs (fp_sub binary64 (Fin (of_int z)) (Fin (of_int v))) < f64_epsilon \<longleftrightarrow> z = v"
    by (fastforce simp: within_epsilon_def)
  show ?thesis
    using cast_order[OF v z] eq
    by (cases op) (auto simp: check_threshold_def lit f64_of_int_Fin[OF n] z simp del: of_int_sint)
qed

text \<open>Only missing fields are errors in Lean.\<close>

definition lean_agrees :: "zk_error + bool \<Rightarrow> bool option \<Rightarrow> bool" where
  "lean_agrees r l = (case r of
      Inl e \<Rightarrow> (case e of MissingField _ \<Rightarrow> l = None | _ \<Rightarrow> False)
    | Inr b \<Rightarrow> l = Some b)"

lemma lean_agrees_simps [simp]:
  "lean_agrees (Inl (MissingField f)) l \<longleftrightarrow> l = None" "lean_agrees (Inr b) l \<longleftrightarrow> l = Some b"
  by (simp_all add: lean_agrees_def)

lemma lean_agreesE:
  assumes "lean_agrees r l"
  obtains f where "r = Inl (MissingField f)" "l = None" | b where "r = Inr b" "l = Some b"
  using assms by (auto simp: lean_agrees_def split: sum.splits zk_error.splits)

lemma sint_i64: "- (2 ^ 63) \<le> n \<Longrightarrow> n < 2 ^ 63 \<Longrightarrow> sint (word_of_int n :: i64) = n"
  by (simp add: signed_of_int signed_take_bit_int_eq_self)

lemma check_constraint_lean:
  "lean_bounded c \<Longrightarrow> lean_agrees (check_constraint (code_constraint c) a) (lean_check (lean_data a) c)"
  "list_all lean_bounded cs \<Longrightarrow>
    lean_agrees (try_all (\<lambda>c. check_constraint c a) (map code_constraint cs)) (lean_check_all (lean_data a) cs)"
  "list_all lean_bounded cs \<Longrightarrow>
    lean_agrees (try_any (\<lambda>c. check_constraint c a) (map code_constraint cs)) (lean_check_any (lean_data a) cs)"
proof (induction "lean_data a" c and "lean_data a" cs and "lean_data a" cs
    rule: lean_check_lean_check_all_lean_check_any.induct)
  case (1 f lo hi)
  then show ?case by (simp add: lean_data_def get_numeric_def word_sle_eq sint_i64 split: option.split)
next
  case (2 f op x)
  then show ?case by (simp add: lean_data_def get_numeric_def check_threshold_lean split: option.split)
next
  case (6 c cs)
  then have "lean_agrees (check_constraint (code_constraint c) a) (lean_check (lean_data a) c)" by simp
  then show ?case using 6 by (elim lean_agreesE) simp_all
next
  case (8 c cs)
  then have "lean_agrees (check_constraint (code_constraint c) a) (lean_check (lean_data a) c)" by simp
  then show ?case using 8 by (elim lean_agreesE) simp_all
qed simp_all

text \<open>C17: The evaluator refines the Lean model of policies: for ranges of 64-bit bounds and integer
  thresholds below \<open>2 ^ 53\<close> it gives what Lean's evaluator gives, for every action, whatever its
  values - so the caution about values beyond \<open>2 ^ 53\<close> in the README is only needed for the
  threshold -, and its only error is the missing field that Lean has. At the threshold
  \<open>2 ^ 53\<close> the two differ.\<close>

theorem policy_refines_lean:
  "(list_all lean_bounded cs \<longrightarrow>
      lean_agrees (verify_constraints (map code_constraint cs) a) (lean_check_all (lean_data a) cs))
   \<and> (\<exists>n. lean_check (\<lambda>_. Some n) (LThreshold ''x'' Le (2 ^ 53)) = Some False
      \<and> check_constraint (code_constraint (LThreshold ''x'' Le (2 ^ 53)))
           (with_numeric (action_new ''act'') ''x'' (word_of_int n)) = Inr True)"
proof (intro conjI impI exI[of _ "2 ^ 53 + 1"])
  have "f64_lit (2 ^ 53) = Fin (2 ^ 53)" using f64_lit_of_int[of "2 ^ 53"] by simp
  then show "check_constraint (code_constraint (LThreshold ''x'' Le (2 ^ 53)))
      (with_numeric (action_new ''act'') ''x'' (word_of_int (2 ^ 53 + 1))) = Inr True"
    by (simp add: with_numeric_def get_numeric_def check_threshold_def above_limit)
qed (simp_all add: verify_constraints_def check_constraint_lean)

theorem policy_refines_lean_witness:
  "lean_agrees (verify_constraints (map code_constraint [LThreshold ''x'' Gt 0, LRange ''y'' 0 1])
     (with_numeric (action_new ''act'') ''x'' 3)) None"
proof -
  let ?cs = "[LThreshold ''x'' Gt 0, LRange ''y'' 0 1]" and ?a = "with_numeric (action_new ''act'') ''x'' 3"
  have "lean_check_all (lean_data ?a) ?cs = None"
    by (simp add: lean_data_def with_numeric_def action_new_def)
  with policy_refines_lean[of ?cs ?a] show ?thesis by simp
qed

end
