(* ===== verification/UnitTests.thy ===== *)
theory UnitTests
  imports AgentMain Channel Helpers Metrics TeeGateway TimeUtil XdpIngest ZkProofs
begin

text \<open>
  The unit tests of the crates as programs over the model: each definition carries the name of the test
  it translates and is true when the test passes, that is when no assertion fails and no
  \<^verbatim>\<open>unwrap\<close> panics. Random draws, clock readings, the host and the third-party primitives are
  arguments; the lemma after it says for which of them the test passes. A test that asserts nothing
  gives what it computes. The printing of the benchmarks' timings is left out.
\<close>

section \<open>Assertions\<close>

definition is_ok :: "'e + 'a \<Rightarrow> bool" where
  "is_ok r = (case r of Inl _ \<Rightarrow> False | Inr _ \<Rightarrow> True)"

definition is_err :: "'e + 'a \<Rightarrow> bool" where
  "is_err r = (case r of Inl _ \<Rightarrow> True | Inr _ \<Rightarrow> False)"

text \<open>What comes after an \<^verbatim>\<open>unwrap\<close> runs only if there is a value.\<close>

definition unwrapped :: "'e + 'a \<Rightarrow> ('a \<Rightarrow> bool) \<Rightarrow> bool" where
  "unwrapped r rest = (case r of Inl _ \<Rightarrow> False | Inr x \<Rightarrow> rest x)"

lemma assertion_simps [simp]:
  "is_ok (Inr x)" "\<not> is_ok (Inl e)" "is_err (Inl e)" "\<not> is_err (Inr x)"
  "unwrapped (Inr x) rest = rest x" "\<not> unwrapped (Inl e) rest"
  by (simp_all add: is_ok_def is_err_def unwrapped_def)

text \<open>\<^verbatim>\<open>str::contains\<close>.\<close>

definition contains :: "string \<Rightarrow> string \<Rightarrow> bool" where
  "contains s p = list_ex (\<lambda>i. take (length p) (drop i s) = p) [0..<Suc (length s)]"

lemma contains_middle: "contains (xs @ p @ ys) p"
  by (auto simp: contains_def list_ex_iff intro!: bexI[of _ "length xs"])

section \<open>\<^verbatim>\<open>common\<close>\<close>

definition test_network_quality_degraded :: bool where
  "test_network_quality_degraded =
     (let quality = \<lparr>latency_ms = f64_lit 250, packet_loss_pct = f64_lit 1, jitter_ms = f64_lit 10,
            bandwidth_mbps = f64_lit 100, measured_at = 0\<rparr>
      in is_degraded quality \<and> \<not> is_offline quality)"

lemma test_network_quality_degraded_passes: "test_network_quality_degraded"
  by (simp add: test_network_quality_degraded_def is_degraded_def is_offline_def)

definition test_network_quality_offline :: bool where
  "test_network_quality_offline =
     (let quality = \<lparr>latency_ms = f64_lit 6000, packet_loss_pct = f64_lit 60, jitter_ms = f64_lit 100,
            bandwidth_mbps = f64_lit 0, measured_at = 0\<rparr>
      in is_offline quality)"

lemma test_network_quality_offline_passes: "test_network_quality_offline"
  by (simp add: test_network_quality_offline_def is_offline_def)

definition eviction_frame :: "u64 \<Rightarrow> telemetry_frame" where
  "eviction_frame i = \<lparr>frame_id = i, source_ip = ''192.168.1.1'', dest_ip = None, timestamp_ns = i * 1000,
     payload = replicate 100 (ucast i), metadata = default_metadata\<rparr>"

definition test_context_buffer_eviction :: bool where
  "test_context_buffer_eviction =
     (let buffer = foldl (\<lambda>buffer i. buffer_push buffer (eviction_frame (of_nat i))) (buffer_new 10 1024) [0..<15]
      in buffer_len buffer \<le> 10 \<and> buffer_total_bytes buffer \<le> 1024)"

lemma test_context_buffer_eviction_passes: "test_context_buffer_eviction"
proof -
  define fs where "fs = map (\<lambda>i. eviction_frame (of_nat i)) [0..<15]"
  define buffer where "buffer = foldl buffer_push (buffer_new 10 1024) fs"
  have size: "\<forall>f \<in> set fs. length (payload f) = 100" by (auto simp: fs_def eviction_frame_def)
  then have ok: "list_all frame_ok fs"
    by (simp add: list_all_iff frame_ok_def isize_max_def)
  have new: "buffer_inv (buffer_new 10 1024)" by (rule buffer_new_inv) (simp add: isize_max_def)
  have max: "max_frames (foldl buffer_push b xs) = max_frames b" for b xs by (induction xs arbitrary: b) simp_all
  have inv: "buffer_inv buffer" unfolding buffer_def by (rule ctx.inv_pushes[OF new ok])
  then have len: "length (frames buffer) \<le> 10" by (simp add: buffer_inv_def buffer_def max buffer_new_def)
  obtain k where "frames buffer = drop k fs"
    using ctx.contents_pushes[OF new ok] by (auto simp: buffer_def buffer_new_def)
  then have "\<forall>f \<in> set (frames buffer). length (payload f) = 100"
    using size by (auto dest!: set_drop_subset[THEN subsetD])
  moreover have "\<forall>f \<in> set gs. length (payload f) = 100 \<Longrightarrow> payload_bytes gs = 100 * length gs" for gs
    by (induction gs) auto
  ultimately have "unat (total_bytes buffer) \<le> 1024" using inv len by (simp add: buffer_inv_def)
  then have "buffer_total_bytes buffer \<le> 1024" by (simp add: buffer_total_bytes_def word_le_nat_alt)
  moreover have "buffer_len buffer \<le> 10"
    using len by (simp add: buffer_len_def word_le_nat_alt usize_len_def unat_of_nat)
  moreover have "foldl (\<lambda>b i. buffer_push b (eviction_frame (of_nat i))) (buffer_new 10 1024) [0..<15] = buffer"
    unfolding buffer_def fs_def foldl_map ..
  ultimately show ?thesis by (simp only: test_context_buffer_eviction_def Let_def)
qed

section \<open>\<^verbatim>\<open>helpers\<close>\<close>

definition test_zero_copy_buffer :: bool where
  "test_zero_copy_buffer = unwrapped (with_capacity 1024) (\<lambda>buffer.
     write_available buffer = 1024 \<and> read_available buffer = 0
     \<and> (case advance_write buffer 100 of (buffer1, written) \<Rightarrow> unwrapped written (\<lambda>_.
       write_available buffer1 = 924 \<and> read_available buffer1 = 100
       \<and> (case advance_read buffer1 50 of (buffer2, read) \<Rightarrow> unwrapped read (\<lambda>_.
         read_available buffer2 = 50)))))"

lemma test_zero_copy_buffer_passes: "test_zero_copy_buffer"
  by (simp add: test_zero_copy_buffer_def with_capacity_def advance_write_def advance_read_def
      write_available_def read_available_def isize_max_def)

definition test_buffer_overflow :: bool where
  "test_buffer_overflow = unwrapped (with_capacity 100) (\<lambda>buffer.
     case advance_write buffer 100 of (buffer1, written) \<Rightarrow> unwrapped written (\<lambda>_.
       is_err (snd (advance_write buffer1 1))))"

lemma test_buffer_overflow_passes: "test_buffer_overflow"
  by (simp add: test_buffer_overflow_def with_capacity_def advance_write_def isize_max_def)

definition test_telemetry_frame_builder :: bool where
  "test_telemetry_frame_builder =
     unwrapped (frame_build (with_payload_str (with_source_ip (with_frame_id frame_builder_new 42)
       ''192.168.1.100'') ''test data'')) (\<lambda>frame.
       frame_id frame = 42 \<and> source_ip frame = ''192.168.1.100'' \<and> payload frame = as_bytes ''test data'')"

lemma test_telemetry_frame_builder_passes: "test_telemetry_frame_builder"
  by (simp add: test_telemetry_frame_builder_def frame_build_def with_payload_str_def with_source_ip_def
      with_frame_id_def or_default_def)

definition test_network_quality_builders :: bool where
  "test_network_quality_builders =
     (\<not> is_degraded quality_excellent \<and> \<not> is_offline quality_excellent
      \<and> is_degraded quality_degraded \<and> \<not> is_offline quality_degraded
      \<and> is_offline quality_offline)"

lemma named_networks:
  "\<not> is_degraded excellent_network" "is_degraded degraded_network" "\<not> is_offline degraded_network"
  "is_offline offline_network"
  using fixtures_as_named[of 0 0 excellent_network] by blast+

lemma test_network_quality_builders_passes: "test_network_quality_builders"
  using named_networks offline_imp_degraded[of quality_excellent]
  by (auto simp: test_network_quality_builders_def excellent_network_def degraded_network_def offline_network_def)

definition test_frame_metadata_builder :: bool where
  "test_frame_metadata_builder =
     (let meta = metadata_build (meta_with_agent_mode (meta_with_session_id
            (meta_with_latency_ms metadata_builder_new (f64_lit 50)) ''session-123'') Online)
      in fm_latency_ms meta = Some (f64_lit 50) \<and> fm_session_id meta = Some ''session-123'')"

lemma test_frame_metadata_builder_passes: "test_frame_metadata_builder"
  by (simp add: test_frame_metadata_builder_def metadata_build_def meta_with_agent_mode_def
      meta_with_session_id_def meta_with_latency_ms_def)

definition test_sample_frame_generation :: bool where
  "test_sample_frame_generation = unwrapped sample_frame (\<lambda>frame. frame_id frame = 1 \<and> payload frame \<noteq> [])"

lemma test_sample_frame_generation_passes: "test_sample_frame_generation"
  by (simp add: test_sample_frame_generation_def sample_frame_def unwrap_frame_def frame_build_def
      with_payload_str_def with_source_ip_def with_frame_id_def or_default_def as_bytes_def)

definition test_multiple_frames :: bool where
  "test_multiple_frames = unwrapped (sample_frames 5) (\<lambda>frames.
     length frames = 5 \<and> frame_id (frames ! 0) = 1 \<and> frame_id (frames ! 4) = 5)"

lemma test_multiple_frames_passes: "test_multiple_frames"
proof -
  obtain fs where fs: "sample_frames 5 = Inr fs" "map frame_id fs = map of_nat [1..<Suc 5]"
    using fixtures_as_named[of 5 0 excellent_network] by auto
  moreover have len: "length fs = 5" using arg_cong[OF fs(2), of length] by simp
  moreover have "frame_id (fs ! i) = of_nat (Suc i)" if "i < 5" for i
    using arg_cong[OF fs(2), of "\<lambda>xs. xs ! i"] that len by (simp del: upt_Suc)
  from this[of 0] this[of 4] have "frame_id (fs ! 0) = 1" "frame_id (fs ! 4) = 5" by simp_all
  ultimately show ?thesis by (simp add: test_multiple_frames_def)
qed

definition test_network_quality_fixtures :: bool where
  "test_network_quality_fixtures =
     (\<not> is_degraded excellent_network \<and> is_degraded degraded_network \<and> is_offline offline_network)"

lemma test_network_quality_fixtures_passes: "test_network_quality_fixtures"
  using named_networks by (simp add: test_network_quality_fixtures_def)

definition test_frame_with_quality :: bool where
  "test_frame_with_quality =
     (let quality = degraded_network
      in unwrapped (frame_with_quality 42 quality) (\<lambda>frame.
           frame_id frame = 42 \<and> fm_latency_ms (metadata frame) = Some (latency_ms quality)))"

lemma test_frame_with_quality_passes: "test_frame_with_quality"
  using fixtures_as_named[of 0 42 degraded_network] by (auto simp: test_frame_with_quality_def)

text \<open>The clock is read before and after the sleep.\<close>

definition test_now_ns_increases :: "int \<Rightarrow> int \<Rightarrow> bool" where
  "test_now_ns_increases before after =
     unwrapped (now_ns before) (\<lambda>t1. unwrapped (now_ns after) (\<lambda>t2. t2 > t1))"

lemma test_now_ns_increases_passes:
  "0 \<le> before \<Longrightarrow> before < after \<Longrightarrow> after < 2 ^ 64 \<Longrightarrow> test_now_ns_increases before after"
  by (simp add: test_now_ns_increases_def now_ns_def word_less_def uint_word_of_int)

definition test_elapsed_time :: "int \<Rightarrow> int \<Rightarrow> bool" where
  "test_elapsed_time start now = (let elapsed = elapsed_ms now start in elapsed \<ge> 50 \<and> elapsed < 100)"

lemma test_elapsed_time_passes:
  assumes "50000000 \<le> now - start" and "now - start < 100000000"
  shows "test_elapsed_time start now"
proof -
  have "50 \<le> max 0 (now - start) div 1000000" "max 0 (now - start) div 1000000 < 100" using assms by auto
  then show ?thesis
    by (simp add: test_elapsed_time_def elapsed_ms_def word_less_def word_le_def uint_word_of_int)
qed

definition test_format_duration :: bool where
  "test_format_duration =
     (contains (format_duration \<lparr>secs = 120, nanos = 0\<rparr>) ''m''
      \<and> contains (format_duration \<lparr>secs = 30, nanos = 0\<rparr>) ''s''
      \<and> contains (format_duration \<lparr>secs = 0, nanos = 500000000\<rparr>) ''ms'')"

lemma test_format_duration_passes: "test_format_duration"
  using contains_middle[of _ _ "[]"]
  by (simp add: test_format_duration_def format_duration_def as_millis_def)

definition test_registry_creation :: bool where
  "test_registry_creation =
     (let registry = metrics_new
      in is_ok (register_edge_agent_counters registry) \<and> is_ok (register_network_gauges registry)
         \<and> is_ok (register_latency_histogram registry))"

lemma test_registry_creation_passes: "test_registry_creation"
  by (simp add: test_registry_creation_def register_edge_agent_counters_def register_network_gauges_def
      register_latency_histogram_def)

text \<open>The recording functions return nothing; the list is what their calls give.\<close>

definition test_metric_recording :: "unit list" where
  "test_metric_recording =
     [observe_latency (f64_lit 50), record_mode_transition ''online'' ''degraded'',
      record_frame_processed ''cloud'' 1024, record_pqc_event ''session_created'',
      record_tee_event ''api_call'' (f64_lit 100), record_zk_event ''proof_generated'' True]"

definition test_export_metrics :: bool where
  "test_export_metrics = contains export_metrics ''sovereignedge_frames_processed''"

lemma test_export_metrics_passes: "test_export_metrics"
  using contains_middle[of "''# HELP ''" "''sovereignedge_frames_processed''"
      "'' Total frames processed'' @ [CHR 0x0A] @ ''# TYPE sovereignedge_frames_processed counter'' @ [CHR 0x0A]
       @ ''sovereignedge_frames_processed 0'' @ [CHR 0x0A]"]
  by (simp add: test_export_metrics_def export_metrics_def)

section \<open>\<^verbatim>\<open>edge-agent\<close>\<close>

text \<open>
  Detection on any host. The driver's information file may leave the model blank, and then the name of
  an NVIDIA card is empty and the test fails; on every other host it passes.
\<close>

definition test_detect_does_not_panic :: "host \<Rightarrow> bool" where
  "test_detect_does_not_panic h =
     list_all (\<lambda>a. acc_name a \<noteq> [] \<and> device_path a \<noteq> []) (detect_accelerators h)"

lemma test_detect_does_not_panic_passes:
  assumes "nvidia_model_name h \<noteq> Some []"
  shows "test_detect_does_not_panic h"
proof -
  have drm: "acc_name x \<noteq> [] \<and> device_path x \<noteq> []" if "drm_gpu h e = Some x" for e x
    using that assms by (auto simp: drm_gpu_def Let_def split: option.splits if_splits)
  have npu: "snd (npu_of_driver h d drv) \<noteq> []" for d drv
    by (simp add: npu_of_driver_def split: option.splits)
  have accel: "acc_name x \<noteq> [] \<and> device_path x \<noteq> []" if "accel_npu h e = Some x" for e x
    using that npu by (auto simp: accel_npu_def Let_def split: if_splits prod.splits) (metis snd_conv)
  have misc: "acc_name x \<noteq> [] \<and> device_path x \<noteq> []"
    if "x \<in> set (misc_npus h d p v n)" "n \<noteq> []" for d p v n x
    using that by (auto simp: misc_npus_def split: option.splits)
  show ?thesis
    using drm accel misc
    by (fastforce simp: test_detect_does_not_panic_def list_all_iff detect_accelerators_def detected_gpu
        detect_accel_npus_def detect_misc_npus_def split: option.splits)
qed

lemma test_detect_fails_on_blank_model:
  assumes "drm_gpu h e = Some a" and "acc_vendor a = Nvidia" and "nvidia_model_name h = Some []"
    and "read_dir h ''/sys/class/drm'' = Some es" and "Some e \<in> set es"
  shows "\<not> test_detect_does_not_panic h"
proof -
  have "acc_name a = []"
    using assms(1-3) by (auto simp: drm_gpu_def Let_def split: option.splits if_splits)
  moreover have "a \<in> set (detect_accelerators h)"
    using assms(1,4,5) by (auto simp: detect_accelerators_def detect_drm_gpus_def)
  ultimately show ?thesis by (auto simp: test_detect_does_not_panic_def list_all_iff)
qed

text \<open>The test only asks that the sensors print: the lines it prints.\<close>

definition test_sensor_reading_never_panics :: "host \<Rightarrow> string list" where
  "test_sensor_reading_never_panics h = map (\<lambda>a. show_sensors (read_sensors h a)) (detect_accelerators h)"

lemma show_sensors_nonempty: "show_sensors r \<noteq> []"
proof -
  have "join_with sep (x # xs) \<noteq> []" if "x \<noteq> []" for sep x xs
    using that by (cases xs) (simp_all add: join_with_def)
  then show ?thesis
    by (auto simp: show_sensors_def option_list_def split: option.split)
qed

lemma test_sensor_reading_prints: "[] \<notin> set (test_sensor_reading_never_panics h)"
  by (auto simp: test_sensor_reading_never_panics_def show_sensors_nonempty dest: sym[of "[]"])

definition test_sensor_display :: bool where
  "test_sensor_display =
     (show_sensors no_reading = ''no sensors''
      \<and> show_sensors \<lparr>temp_c = Some (f32_lit 45), power_w = Some (f32_lit (13 / 4)),
             utilization_pct = Some (f32_lit 12)\<rparr>
          = ''45'' @ string_of_bytes [0xC2, 0xB0] @ ''C, 3.2W, 12% util'')"

lemma quarters_f32:
  assumes "q = of_int m / 4" "\<bar>m\<bar> < 2 ^ 20"
  shows "f32_lit q = Fin q"
proof -
  have "fround binary32 q = q"
    using assms by (intro fround_exact_less[of q m "- 2"]) (simp_all add: binary32_def power_int_def power2_eq_square)
  moreover have "(of_int \<bar>m\<bar> :: rat) < of_int (2 ^ 20)" using assms(2) by (simp only: of_int_less_iff)
  then have "\<bar>q\<bar> < 2 ^ 20" using assms(1) by simp
  moreover have "- (2 powi (femax binary32 + 1)) < q" "q < 2 powi (femax binary32 + 1)"
    using \<open>\<bar>q\<bar> < 2 ^ 20\<close> by (simp_all add: abs_less_iff binary32_def power_int_def)
  ultimately show ?thesis by (simp add: f32_lit_def fp_of_rat_def Let_def)
qed

lemma test_sensor_display_passes: "test_sensor_display"
proof -
  have digits: "show_nat 45 = ''45''" "show_nat 12 = ''12''" "show_nat 32 = ''32''" by code_simp+
  have half: "\<lfloor>(65 / 2 :: rat)\<rfloor> = 32" by (simp add: floor_eq_iff)
  have "f32_lit 45 = Fin 45" "f32_lit (13 / 4) = Fin (13 / 4)" "f32_lit 12 = Fin 12"
    using quarters_f32[of 45 180] quarters_f32[of "13 / 4" 13] quarters_f32[of 12 48] by simp_all
  moreover have "show_fixed 0 (Fin 45) = ''45''" "show_fixed 0 (Fin 12) = ''12''" "show_fixed 1 (Fin (13 / 4)) = ''3.2''"
    using digits half by (simp_all add: show_fixed_def rne_def Let_def)
  ultimately show ?thesis
    by (simp add: test_sensor_display_def show_sensors_def option_list_def join_with_def no_reading_def)
qed

definition test_vendor_mapping :: bool where
  "test_vendor_mapping =
     (vendor_from_pci_id ''0x10de'' = Nvidia \<and> vendor_from_pci_id ''0x1002'' = Amd
      \<and> vendor_from_pci_id ''0x8086'' = Intel
      \<and> (case vendor_from_pci_id ''0xdead'' of Other _ \<Rightarrow> True | _ \<Rightarrow> False))"

lemma test_vendor_mapping_passes: "test_vendor_mapping"
  by (simp add: test_vendor_mapping_def vendor_from_pci_id_def)

definition test_llama_offload_capability :: bool where
  "test_llama_offload_capability =
     (let gpu = \<lparr>kind = Gpu, acc_vendor = Nvidia, acc_name = ''test'', device_path = ''/dev/dri/card0'',
            driver = None, sysfs_device = None\<rparr>;
          npu = \<lparr>kind = Npu, acc_vendor = Amd, acc_name = ''test'', device_path = ''/dev/accel/accel0'',
            driver = None, sysfs_device = None\<rparr>
      in supports_llama_offload gpu \<and> \<not> supports_llama_offload npu)"

lemma test_llama_offload_capability_passes: "test_llama_offload_capability"
  by (simp add: test_llama_offload_capability_def supports_llama_offload_def)

definition test_agent_creation :: bool where
  "test_agent_creation = (let agent = agent_new 5 in agent_current_mode agent = Online)"

lemma test_agent_creation_passes: "test_agent_creation"
  by (simp add: test_agent_creation_def agent_current_mode_def agent_new_def)

definition test_mode_determination :: bool where
  "test_mode_determination =
     (let agent = (agent_new 5)\<lparr>ag_quality := \<lparr>latency_ms = f64_lit 50, packet_loss_pct = f64_lit (1 / 2),
            jitter_ms = f64_lit 5, bandwidth_mbps = f64_lit 100, measured_at = 0\<rparr>\<rparr>;
          agent1 = agent\<lparr>ag_quality := (ag_quality agent)\<lparr>latency_ms := f64_lit 250\<rparr>\<rparr>;
          agent2 = agent1\<lparr>ag_quality := (ag_quality agent1)\<lparr>packet_loss_pct := f64_lit 60\<rparr>\<rparr>
      in determine_mode agent = Online \<and> determine_mode agent1 = Degraded \<and> determine_mode agent2 = Offline)"

lemma test_mode_determination_passes: "test_mode_determination"
proof -
  have "0 \<le> fround binary64 (1 / 2)" "fround binary64 (1 / 2) \<le> 1"
    using fround64_between[of 0 1 "1 / 2"] by simp_all
  then have "\<not> f64_lit 5 < f64_lit (1 / 2)" "\<not> f64_lit 50 < f64_lit (1 / 2)"
    by (simp_all add: f64_lit_def fp_of_rat_Fin)
  then show ?thesis
    by (simp add: test_mode_determination_def agent_new_def determine_mode_def is_degraded_def is_offline_def)
qed

definition test_frame_processing :: "u64 \<Rightarrow> bool" where
  "test_frame_processing now =
     (let frame = \<lparr>frame_id = 0, source_ip = ''192.168.1.1'', dest_ip = None, timestamp_ns = 0,
            payload = [1, 2, 3, 4], metadata = default_metadata\<rparr>
      in case process_frame (agent_new 5) frame now of (agent, result) \<Rightarrow>
           ir_source result = Cloud \<and> frames_processed (agent_get_stats agent) = 1)"

lemma test_frame_processing_passes: "test_frame_processing now"
  using process_frame_effect(6,8)[of "agent_new 5"]
  by (auto simp: test_frame_processing_def agent_new_def agent_get_stats_def split: prod.split)

definition test_simulated_backend :: bool where
  "test_simulated_backend =
     (case backend_infer simulated_backend ''test prompt'' 16 of (backend, outcome) \<Rightarrow>
        unwrapped outcome (\<lambda>result. out_text result = ''LOCAL_SAFETY_CHECK'' \<and> backend_name backend = ''simulated''))"

lemma test_simulated_backend_passes: "test_simulated_backend"
  by (simp add: test_simulated_backend_def simulated_output_def)

section \<open>\<^verbatim>\<open>xdp-ingest\<close>\<close>

definition test_umem_region :: bool where
  "test_umem_region = unwrapped (umem_new 1024 100) (\<lambda>umem. length (umem_buffer umem) = 102400)"

lemma test_umem_region_passes: "test_umem_region"
  by (simp add: test_umem_region_def umem_new_def isize_max_def)

definition test_parse_telemetry_frame :: "u64 \<Rightarrow> bool" where
  "test_parse_telemetry_frame now =
     (case parse_telemetry_frame (replicate 100 0) 1 now of
        None \<Rightarrow> False
      | Some frame \<Rightarrow> length (payload frame) = 100)"

definition test_parse_invalid_frame :: "u64 \<Rightarrow> bool" where
  "test_parse_invalid_frame now \<longleftrightarrow> parse_telemetry_frame (replicate 10 0) 1 now = None"

lemma test_parse_frames_pass: "test_parse_telemetry_frame now" "test_parse_invalid_frame now"
  by (simp_all add: test_parse_telemetry_frame_def test_parse_invalid_frame_def parse_telemetry_frame_def)

section \<open>\<^verbatim>\<open>pqc-transport\<close>\<close>

text \<open>
  A \<^verbatim>\<open>HybridKem::generate()\<close> draws an X25519 secret and an ML-KEM seed, the pair \<open>d\<close>; an encapsulation
  draws an ephemeral secret and the randomness of ML-KEM.
\<close>

definition generated :: "crypto \<Rightarrow> bytes \<times> bytes \<Rightarrow> hybrid_kem" where
  "generated cr d = kem_generate cr (fst d) (snd d)"

definition test_hybrid_keygen :: "crypto \<Rightarrow> bytes \<times> bytes \<Rightarrow> bool" where
  "test_hybrid_keygen cr d =
     (let kem = generated cr d
      in pk_mlkem (kem_public_key kem) \<noteq> [] \<and> usize_len (kem_seed kem) = MLKEM768_SEED_SIZE)"

lemma test_hybrid_keygen_passes:
  assumes "kem_correct cr" and "mlkem_ek_size cr = 1184" and "length (snd d) = 64"
  shows "test_hybrid_keygen cr d"
proof -
  have "length (mlkem_ek_of_seed cr (snd d)) = 1184" using assms(1,2) by (simp add: kem_correct_def)
  then have "mlkem_ek_of_seed cr (snd d) \<noteq> []" by auto
  then show ?thesis
    using assms(3) by (simp add: test_hybrid_keygen_def generated_def kem_generate_def kem_public_key_def kem_seed_def
        usize_len_def MLKEM768_SEED_SIZE_def)
qed

definition test_hybrid_key_exchange_roundtrip :: "crypto \<Rightarrow> bytes \<times> bytes \<Rightarrow> bytes \<Rightarrow> bytes \<Rightarrow> bool" where
  "test_hybrid_key_exchange_roundtrip cr d eph rnd =
     (let bob = generated cr d
      in unwrapped (encapsulate_to_peer cr (kem_public_key bob) eph rnd) (\<lambda>(encapsulation, alice_shared).
           unwrapped (decapsulate_from_peer cr bob encapsulation) (\<lambda>bob_shared. alice_shared = bob_shared)))"

lemma test_hybrid_key_exchange_roundtrip_passes:
  assumes "kem_correct cr"
  shows "test_hybrid_key_exchange_roundtrip cr d eph rnd"
proof -
  obtain enc shared where "encapsulate_to_peer cr (kem_public_key (generated cr d)) eph rnd = Inr (enc, shared)"
    "decapsulate_from_peer cr (generated cr d) enc = Inr shared"
    unfolding generated_def kem_public_key_def by (rule key_exchange_agrees[OF assms])
  then show ?thesis by (simp add: test_hybrid_key_exchange_roundtrip_def)
qed

text \<open>The keys that the first benchmark generates.\<close>

definition bench_mlkem_keygen :: "crypto \<Rightarrow> (nat \<Rightarrow> bytes \<times> bytes) \<Rightarrow> hybrid_kem list" where
  "bench_mlkem_keygen cr d = map (\<lambda>i. generated cr (d i)) [0..<100]"

lemma bench_mlkem_keygen_sizes:
  "kem_correct cr \<Longrightarrow> kem \<in> set (bench_mlkem_keygen cr d)
    \<Longrightarrow> length (pk_mlkem (kem_public_key kem)) = mlkem_ek_size cr"
  by (auto simp: bench_mlkem_keygen_def generated_def kem_generate_def kem_public_key_def kem_correct_def)

definition bench_mlkem_roundtrip :: "crypto \<Rightarrow> (nat \<Rightarrow> bytes \<times> bytes) \<Rightarrow> (nat \<Rightarrow> bytes) \<Rightarrow> (nat \<Rightarrow> bytes) \<Rightarrow> bool" where
  "bench_mlkem_roundtrip cr d eph rnd =
     list_all (\<lambda>i. let bob = generated cr (d i)
         in unwrapped (encapsulate_to_peer cr (kem_public_key bob) (eph i) (rnd i)) (\<lambda>(enc, alice_ss).
              unwrapped (decapsulate_from_peer cr bob enc) (\<lambda>bob_ss. alice_ss = bob_ss))) [0..<50]"

lemma bench_mlkem_roundtrip_passes: "kem_correct cr \<Longrightarrow> bench_mlkem_roundtrip cr d eph rnd"
  using test_hybrid_key_exchange_roundtrip_passes
  unfolding bench_mlkem_roundtrip_def list_all_iff test_hybrid_key_exchange_roundtrip_def by blast

text \<open>Both ends in one manager, as the tests have them.\<close>

lemma own_session:
  assumes "kem_correct cr"
  obtains t1 r enc t2 q where
    "establish_session cr t (kem_public_key (generated cr d)) eph rnd id1 now1 = (t1, Inr (r, enc))"
    "accept_session cr t1 (generated cr d) enc id2 now2 = (t2, Inr q)"
    "session_count t1 = session_count t + 1" "r < length (tr_store t2)" "q < length (tr_store t2)" "r \<noteq> q"
    "linked (tr_store t2 ! r) (tr_store t2 ! q)" "send_nonce (tr_store t2 ! r) = 0"
proof -
  obtain enc shared where "encapsulate_to_peer cr (kem_public_key (generated cr d)) eph rnd = Inr (enc, shared)"
    "decapsulate_from_peer cr (generated cr d) enc = Inr shared"
    unfolding generated_def kem_public_key_def by (rule key_exchange_agrees[OF assms])
  then show thesis
    using that by (simp add: establish_session_def accept_session_def add_session_def pqc_session_new_def linked_def
        session_count_def usize_len_def nth_append)
qed

lemma own_delivery:
  assumes "aead_correct cr" and "length (payload f) \<le> 2 ^ 36"
    and "r < length (tr_store t)" "q < length (tr_store t)" "r \<noteq> q" "linked (tr_store t ! r) (tr_store t ! q)"
    and "unat (send_nonce (tr_store t ! r)) < 2 ^ 64"
  obtains t1 ef t2 where "encrypt_frame cr t r f now1 = (t1, Inr ef)"
    "decrypt_frame cr t1 q ef now2 = (t2, Inr (payload f))" "length (tr_store t2) = length (tr_store t)"
    "linked (tr_store t2 ! r) (tr_store t2 ! q)" "send_nonce (tr_store t2 ! r) = send_nonce (tr_store t ! r) + 1"
proof -
  obtain c where "aes_gcm_encrypt cr (send_key (tr_store t ! r)) (nonce_bytes (send_nonce (tr_store t ! r)))
      (le_bytes 8 (frame_id f)) (payload f) = Inr c"
    "aes_gcm_decrypt cr (send_key (tr_store t ! r)) (nonce_bytes (send_nonce (tr_store t ! r)))
       (le_bytes 8 (frame_id f)) c = Inr (payload f)"
    using assms(1,2) unfolding aead_correct_def by (metis length_le_bytes length_nonce_bytes eight_le_limit)
  with assms(3-7) that show thesis
    by (simp add: encrypt_frame_def pqc_encrypt_def decrypt_frame_def pqc_decrypt_def linked_def not_le
        word_less_nat_alt)
qed

definition test_session_creation :: "crypto \<Rightarrow> bytes \<times> bytes \<Rightarrow> bytes \<Rightarrow> bytes \<Rightarrow> u64 \<Rightarrow> u64 \<Rightarrow> bool" where
  "test_session_creation cr d eph rnd i now =
     is_ok (snd (establish_session cr (transport_new 300) (kem_public_key (generated cr d)) eph rnd i now))"

lemma test_session_creation_passes:
  assumes "kem_correct cr"
  shows "test_session_creation cr d eph rnd i now"
  by (rule own_session[OF assms, of "transport_new 300" d eph rnd i now]) (simp add: test_session_creation_def)

definition hello_frame :: telemetry_frame where
  "hello_frame = \<lparr>frame_id = 1, source_ip = ''10.0.0.1'', dest_ip = None, timestamp_ns = 0,
     payload = as_bytes ''hello from the edge'', metadata = default_metadata\<rparr>"

definition test_session_roundtrip :: "crypto \<Rightarrow> bytes \<times> bytes \<Rightarrow> bytes \<Rightarrow> bytes \<Rightarrow> (nat \<Rightarrow> u64) \<Rightarrow> (nat \<Rightarrow> u64) \<Rightarrow> bool" where
  "test_session_roundtrip cr d eph rnd ids clock =
     (let bob = generated cr d
      in case establish_session cr (transport_new 300) (kem_public_key bob) eph rnd (ids 0) (clock 0) of
        (manager1, established) \<Rightarrow> unwrapped established (\<lambda>(alice_session, encapsulation).
          case accept_session cr manager1 bob encapsulation (ids 1) (clock 1) of
            (manager2, answer) \<Rightarrow> unwrapped answer (\<lambda>bob_session.
              case encrypt_frame cr manager2 alice_session hello_frame (clock 2) of
                (manager3, encrypted) \<Rightarrow> unwrapped encrypted (\<lambda>encrypted.
                  case decrypt_frame cr manager3 bob_session encrypted (clock 3) of
                    (manager4, decrypted) \<Rightarrow> unwrapped decrypted (\<lambda>decrypted.
                      decrypted = as_bytes ''hello from the edge'')))))"

lemma test_session_roundtrip_passes:
  assumes "kem_correct cr" and "aead_correct cr"
  shows "test_session_roundtrip cr d eph rnd ids clock"
proof -
  obtain t1 r enc t2 q where h:
    "establish_session cr (transport_new 300) (kem_public_key (generated cr d)) eph rnd (ids 0) (clock 0) = (t1, Inr (r, enc))"
    "accept_session cr t1 (generated cr d) enc (ids 1) (clock 1) = (t2, Inr q)"
    "r < length (tr_store t2)" "q < length (tr_store t2)" "r \<noteq> q"
    "linked (tr_store t2 ! r) (tr_store t2 ! q)" "send_nonce (tr_store t2 ! r) = 0"
    by (rule own_session[OF assms(1)])
  have "length (payload hello_frame) \<le> 2 ^ 36" "unat (send_nonce (tr_store t2 ! r)) < 2 ^ 64"
    using h(7) by (simp_all add: hello_frame_def)
  from own_delivery[OF assms(2) this(1) h(3-6) this(2), of "clock 2" "clock 3"]
  obtain t3 ef t4 where "encrypt_frame cr t2 r hello_frame (clock 2) = (t3, Inr ef)"
    "decrypt_frame cr t3 q ef (clock 3) = (t4, Inr (payload hello_frame))" by blast
  then show ?thesis using h(1,2) by (simp add: test_session_roundtrip_def hello_frame_def)
qed

definition test_session_cleanup :: "crypto \<Rightarrow> bytes \<times> bytes \<Rightarrow> bytes \<Rightarrow> bytes \<Rightarrow> u64 \<Rightarrow> u64 \<Rightarrow> (nat \<Rightarrow> u64) \<Rightarrow> bool" where
  "test_session_cleanup cr d eph rnd i now clock =
     (case establish_session cr (transport_new 300) (kem_public_key (generated cr d)) eph rnd i now of
        (manager1, established) \<Rightarrow> unwrapped established (\<lambda>_.
          session_count manager1 = 1
          \<and> (case cleanup_expired manager1 clock of (manager2, removed) \<Rightarrow>
               removed = 0 \<and> session_count manager2 = 1)))"

text \<open>It passes if fewer than 300 seconds pass between the two calls.\<close>

lemma test_session_cleanup_passes:
  assumes "kem_correct cr" and "now \<le> clock 0" and "clock 0 - now < 300000000000"
  shows "test_session_cleanup cr d eph rnd i now clock"
proof -
  obtain t1 r enc where t: "establish_session cr (transport_new 300) (kem_public_key (generated cr d)) eph rnd i now
      = (t1, Inr (r, enc))" "session_count t1 = session_count (transport_new 300) + 1"
    by (rule own_session[OF assms(1)])
  then have "tr_sessions t1 = [0]" "last_activity (tr_store t1 ! 0) = now" "tr_timeout_nanos t1 = 300000000000"
    by (auto simp: establish_session_def add_session_def transport_new_def pqc_session_new_def Let_def
        split: sum.splits prod.splits)
  moreover from this have "cleanup_expired t1 clock = (t1, 0)"
    using assms(2,3) by (simp add: cleanup_expired_def is_expired_def saturating_sub_def not_less less_imp_le)
  ultimately show ?thesis
    using t by (simp add: test_session_cleanup_def session_count_def usize_len_def transport_new_def)
qed

text \<open>The benchmark of the session: a frame of a kilobyte goes through it again and again.\<close>

definition kilobyte_frame :: telemetry_frame where
  "kilobyte_frame = \<lparr>frame_id = 1, source_ip = ''10.0.0.1'', dest_ip = None, timestamp_ns = 0,
     payload = replicate 1024 0, metadata = default_metadata\<rparr>"

fun bench_rounds :: "crypto \<Rightarrow> transport \<Rightarrow> nat \<Rightarrow> nat \<Rightarrow> (u64 \<times> u64) list \<Rightarrow> bool" where
  "bench_rounds cr manager alice_session bob_session [] = True"
| "bench_rounds cr manager alice_session bob_session ((now1, now2) # clock) =
     (case encrypt_frame cr manager alice_session kilobyte_frame now1 of
        (manager1, encrypted) \<Rightarrow> unwrapped encrypted (\<lambda>enc.
          case decrypt_frame cr manager1 bob_session enc now2 of
            (manager2, decrypted) \<Rightarrow> unwrapped decrypted (\<lambda>_.
              bench_rounds cr manager2 alice_session bob_session clock)))"

definition bench_aes_encrypt_decrypt :: "crypto \<Rightarrow> bytes \<times> bytes \<Rightarrow> bytes \<Rightarrow> bytes \<Rightarrow> (nat \<Rightarrow> u64) \<Rightarrow> (nat \<Rightarrow> u64)
    \<Rightarrow> (nat \<Rightarrow> u64 \<times> u64) \<Rightarrow> bool" where
  "bench_aes_encrypt_decrypt cr d eph rnd ids clock rounds =
     (let bob = generated cr d
      in case establish_session cr (transport_new 300) (kem_public_key bob) eph rnd (ids 0) (clock 0) of
        (manager1, established) \<Rightarrow> unwrapped established (\<lambda>(alice_session, encapsulation).
          case accept_session cr manager1 bob encapsulation (ids 1) (clock 1) of
            (manager2, answer) \<Rightarrow> unwrapped answer (\<lambda>bob_session.
              bench_rounds cr manager2 alice_session bob_session (map rounds [0..<1000]))))"

lemma bench_rounds_pass:
  assumes "aead_correct cr" and "r \<noteq> q"
  shows "r < length (tr_store t) \<Longrightarrow> q < length (tr_store t) \<Longrightarrow> linked (tr_store t ! r) (tr_store t ! q)
    \<Longrightarrow> unat (send_nonce (tr_store t ! r)) + length clock \<le> 2 ^ 64 \<Longrightarrow> bench_rounds cr t r q clock"
proof (induction clock arbitrary: t)
  case (Cons x clock)
  obtain now1 now2 where x: "x = (now1, now2)" by (cases x)
  have lt: "unat (send_nonce (tr_store t ! r)) < 2 ^ 64" using Cons.prems(4) by simp
  have "length (payload kilobyte_frame) \<le> 2 ^ 36" by (simp add: kilobyte_frame_def)
  from own_delivery[OF assms(1) this Cons.prems(1,2) assms(2) Cons.prems(3) lt, of now1 now2]
  obtain t1 ef t2 where d: "encrypt_frame cr t r kilobyte_frame now1 = (t1, Inr ef)"
    "decrypt_frame cr t1 q ef now2 = (t2, Inr (payload kilobyte_frame))" "length (tr_store t2) = length (tr_store t)"
    "linked (tr_store t2 ! r) (tr_store t2 ! q)" "send_nonce (tr_store t2 ! r) = send_nonce (tr_store t ! r) + 1"
    by blast
  have "unat (send_nonce (tr_store t2 ! r)) + length clock \<le> 2 ^ 64"
    using Cons.prems(4) lt d(5) by (simp add: unat_add_no_wrap)
  then have "bench_rounds cr t2 r q clock" using Cons.IH[of t2] Cons.prems(1,2) d(3,4) by simp
  with d(1,2) x show ?case by simp
qed simp

lemma bench_aes_encrypt_decrypt_passes:
  assumes "kem_correct cr" and "aead_correct cr"
  shows "bench_aes_encrypt_decrypt cr d eph rnd ids clock rounds"
proof -
  obtain t1 r enc t2 q where h:
    "establish_session cr (transport_new 300) (kem_public_key (generated cr d)) eph rnd (ids 0) (clock 0) = (t1, Inr (r, enc))"
    "accept_session cr t1 (generated cr d) enc (ids 1) (clock 1) = (t2, Inr q)"
    "r < length (tr_store t2)" "q < length (tr_store t2)" "r \<noteq> q"
    "linked (tr_store t2 ! r) (tr_store t2 ! q)" "send_nonce (tr_store t2 ! r) = 0"
    by (rule own_session[OF assms(1)])
  moreover from this have "bench_rounds cr t2 r q (map rounds [0..<1000])"
    by (intro bench_rounds_pass[OF assms(2)]) simp_all
  ultimately show ?thesis by (simp add: bench_aes_encrypt_decrypt_def)
qed

section \<open>\<^verbatim>\<open>tee-gateway\<close>\<close>

definition test_sealed_storage :: "(bytes \<Rightarrow> bytes) \<Rightarrow> bool" where
  "test_sealed_storage hash =
     (let storage = storage_new (simulated_tee hash); secret = as_bytes ''sk-qwen-test-token-12345''
      in case storage_seal storage secret of (storage1, seal_result) \<Rightarrow>
           is_ok seal_result \<and> is_err (storage_unseal storage1)
           \<and> (case verify_attestation storage1 of (storage2, report) \<Rightarrow> unwrapped report (\<lambda>_.
                let unsealed = storage_unseal storage2
                in is_ok unsealed \<and> unwrapped unsealed (\<lambda>text. text = secret))))"

lemma test_sealed_storage_passes: "test_sealed_storage hash"
proof -
  define secret where "secret = as_bytes ''sk-qwen-test-token-12345''"
  obtain st1 r1 where 1: "storage_seal (storage_new (simulated_tee hash)) secret = (st1, r1)" by fastforce
  obtain st2 r2 where 2: "verify_attestation st1 = (st2, r2)" by fastforce
  have "secret \<noteq> []" by (simp add: secret_def as_bytes_def)
  then have "storage_unseal st1 = Inl AttestationFailed" "storage_unseal st2 = Inr secret"
    using simulated_sealing.unseal_run[of hash "[Seal secret]"] 1
      simulated_sealing.unseal_run[of hash "[Seal secret, Attest]"] 2
    by (simp_all add: sealed_texts_def)
  moreover have "r1 = Inr ()" "\<exists>report. r2 = Inr report"
    using 1 2 by (auto simp: storage_seal_def verify_attestation_def simulated_tee_def simulated_tee_methods_def
        storage_new_def)
  ultimately show ?thesis
    using 1 2 unfolding test_sealed_storage_def secret_def[symmetric] by auto
qed

definition test_gateway_initialization :: "(bytes \<Rightarrow> bytes) \<Rightarrow> bool \<Rightarrow> bool" where
  "test_gateway_initialization hash client_builds =
     unwrapped (gateway_initialize client_builds
         (gateway_new (simulated_tee hash) ''https://dashscope.aliyuncs.com/api/v1'') (as_bytes ''test-api-token''))
       (\<lambda>(gateway, outcome). is_ok outcome \<and> is_initialized gateway)"

lemma test_gateway_initialization_passes: "test_gateway_initialization hash True"
  using initialize_seals_key[of "as_bytes ''test-api-token''" hash "''https://dashscope.aliyuncs.com/api/v1''"]
  by (auto simp: test_gateway_initialization_def as_bytes_def)

text \<open>The prompt does not depend on the gateway.\<close>

definition test_frame_processing_builds_prompt :: "(bytes \<Rightarrow> bytes) \<Rightarrow> bool \<Rightarrow> bool" where
  "test_frame_processing_builds_prompt hash client_builds =
     unwrapped (gateway_initialize client_builds
         (gateway_new (simulated_tee hash) ''https://dashscope.aliyuncs.com/api/v1'') (as_bytes ''test-token''))
       (\<lambda>(gateway, outcome). unwrapped outcome (\<lambda>_.
          let frame = \<lparr>frame_id = 1, source_ip = ''192.168.1.1'', dest_ip = None, timestamp_ns = 0,
                payload = as_bytes ''test telemetry data'', metadata = default_metadata\<rparr>;
              prompt = build_prompt frame
          in contains prompt ''Telemetry Frame #1'' \<and> contains prompt SYSTEM_PROMPT))"

lemma test_frame_processing_builds_prompt_passes: "test_frame_processing_builds_prompt hash True"
proof -
  let ?frame = "\<lparr>frame_id = 1, source_ip = ''192.168.1.1'', dest_ip = None, timestamp_ns = 0,
    payload = as_bytes ''test telemetry data'', metadata = default_metadata\<rparr>"
  have one: "show_word (1 :: u64) = ''1''" by code_simp
  obtain rest where p: "build_prompt ?frame = [] @ SYSTEM_PROMPT @ rest"
    "rest = newline @ newline @ ''Telemetry Frame #1'' @ drop 18 (drop 2 rest)"
    using one by (simp add: build_prompt_def newline_def)
  have "contains (build_prompt ?frame) SYSTEM_PROMPT" unfolding p(1) by (rule contains_middle)
  moreover have "contains (build_prompt ?frame) ''Telemetry Frame #1''"
    using contains_middle[of "SYSTEM_PROMPT @ newline @ newline" "''Telemetry Frame #1''" "drop 18 (drop 2 rest)"] p
    by simp
  ultimately show ?thesis
    using initialize_seals_key[of "as_bytes ''test-token''" hash "''https://dashscope.aliyuncs.com/api/v1''"]
    by (auto simp: test_frame_processing_builds_prompt_def Let_def as_bytes_def)
qed

section \<open>\<^verbatim>\<open>zk-proofs\<close>\<close>

definition test_policy_registration :: "(bytes \<Rightarrow> bytes) \<Rightarrow> ('f::comm_ring_1, 'pk, 'vk, 'pf) groth16 \<Rightarrow> nat \<Rightarrow> bool" where
  "test_policy_registration hash g seed =
     (let policy = \<lparr>policy_id = ''safety-001'', description = ''Speed limit enforcement'',
            circuit_constraints = [Range ''speed'' 0 120]\<rparr>
      in policy_count (register_policy hash g seed generator_new policy) = 1)"

lemma test_policy_registration_passes: "test_policy_registration hash g seed"
  by (simp add: test_policy_registration_def policy_count_def Mapping.size_def generator_new_def)

definition test_proof_generation :: "(bytes \<Rightarrow> bytes) \<Rightarrow> ('f::comm_ring_1, 'pk, 'vk, 'pf) groth16
    \<Rightarrow> ((string \<rightharpoonup> i64) \<Rightarrow> i64 list) \<Rightarrow> nat \<Rightarrow> nat \<Rightarrow> u64 \<Rightarrow> bool" where
  "test_proof_generation hash g iter seed rnd now =
     (let policy = \<lparr>policy_id = ''safety-002'', description = ''Confidence threshold'',
            circuit_constraints = [Threshold ''confidence'' ''>='' (f64_lit (7 / 10))]\<rparr>;
          gen = register_policy hash g seed generator_new policy;
          act = with_numeric (action_new ''MAINTAIN_COURSE'') ''confidence'' 85;
          proof = generate_proof hash g rnd iter gen ''safety-002'' act
            (as_bytes ''execution-trace-data-for-zk-proof'') now
      in is_ok proof \<and> unwrapped proof (\<lambda>proof. proof_bytes proof \<noteq> []))"

text \<open>
  The setup has to succeed - without keys the generator reports the policy as missing - and
  serialized proofs have to be nonempty, as those of the library are.
\<close>

lemma test_proof_generation_passes:
  assumes "circuit_specific_setup g seed (generate_constraints \<lparr>circuit_values = [42, 100]\<rparr>) = Inr keys"
    and "\<And>p. serialize_proof g p \<noteq> []"
  shows "test_proof_generation hash g iter seed rnd now"
proof -
  let ?v = "f64_lit (7 / 10)"
  have "0 \<le> fround binary64 (7 / 10)" "fround binary64 (7 / 10) \<le> 1"
    using fround64_between[of 0 1 "7 / 10"] by simp_all
  then have "verify_constraints [Threshold ''confidence'' ''>='' ?v]
      (with_numeric (action_new ''MAINTAIN_COURSE'') ''confidence'' 85) = Inr True"
    by (simp add: verify_constraints_def with_numeric_def action_new_def get_numeric_def check_threshold_def
        f64_of_int_exact f64_lit_def fp_of_rat_Fin)
  then show ?thesis
    using assms by (auto simp: test_proof_generation_def generate_proof_def register_policy_def Let_def
        fallback_nonempty split: sum.splits prod.splits)
qed

definition test_constraint_violation :: "(bytes \<Rightarrow> bytes) \<Rightarrow> ('f::comm_ring_1, 'pk, 'vk, 'pf) groth16
    \<Rightarrow> ((string \<rightharpoonup> i64) \<Rightarrow> i64 list) \<Rightarrow> nat \<Rightarrow> nat \<Rightarrow> u64 \<Rightarrow> bool" where
  "test_constraint_violation hash g iter seed rnd now =
     (let policy = \<lparr>policy_id = ''safety-003'', description = ''Must not exceed threshold'',
            circuit_constraints = [Threshold ''risk_level'' ''<'' (f64_lit 50)]\<rparr>;
          gen = register_policy hash g seed generator_new policy;
          act = with_numeric (action_new ''RISKY_ACTION'') ''risk_level'' 75;
          proof = generate_proof hash g rnd iter gen ''safety-003'' act (as_bytes ''execution-trace'') now
      in is_err proof \<and> (case proof of Inl ConstraintViolation \<Rightarrow> True | _ \<Rightarrow> False))"

lemma test_constraint_violation_passes: "test_constraint_violation hash g iter seed rnd now"
proof -
  have "verify_constraints [Threshold ''risk_level'' ''<'' (f64_lit 50)]
      (with_numeric (action_new ''RISKY_ACTION'') ''risk_level'' 75) = Inr False"
    by (simp add: verify_constraints_def with_numeric_def action_new_def get_numeric_def check_threshold_def
        f64_of_int_exact)
  then show ?thesis by (simp add: test_constraint_violation_def generate_proof_def)
qed

definition test_proof_verification :: "(bytes \<Rightarrow> bytes) \<Rightarrow> ('f::comm_ring_1, 'pk, 'vk, 'pf) groth16
    \<Rightarrow> ((string \<rightharpoonup> i64) \<Rightarrow> i64 list) \<Rightarrow> nat \<Rightarrow> nat \<Rightarrow> u64 \<Rightarrow> bool" where
  "test_proof_verification hash g iter seed rnd now =
     (let policy = \<lparr>policy_id = ''verify-001'', description = ''Test policy'', circuit_constraints = []\<rparr>;
          gen = register_policy hash g seed generator_new policy
      in unwrapped (generate_proof hash g rnd iter gen ''verify-001'' (action_new ''TEST_ACTION'')
             (as_bytes ''test-trace'') now) (\<lambda>proof.
           let result = verify_proof gen proof in is_ok result \<and> unwrapped result valid))"

lemma test_proof_verification_passes:
  assumes "circuit_specific_setup g seed (generate_constraints \<lparr>circuit_values = [42, 100]\<rparr>) = Inr keys"
    and "\<And>p. serialize_proof g p \<noteq> []"
  shows "test_proof_verification hash g iter seed rnd now"
  using assms by (auto simp: test_proof_verification_def generate_proof_def verify_proof_def register_policy_def
      verify_constraints_def Let_def fallback_nonempty split: prod.splits sum.splits)

text \<open>The benchmark discards its results; they are all proofs, so it is proving that it times.\<close>

definition bench_zk_proof_generation :: "(bytes \<Rightarrow> bytes) \<Rightarrow> ('f::comm_ring_1, 'pk, 'vk, 'pf) groth16
    \<Rightarrow> ((string \<rightharpoonup> i64) \<Rightarrow> i64 list) \<Rightarrow> (nat \<Rightarrow> nat) \<Rightarrow> (nat \<Rightarrow> nat) \<Rightarrow> (nat \<Rightarrow> u64)
    \<Rightarrow> (zk_error + zk_proof) list" where
  "bench_zk_proof_generation hash g iter seed rnd clock =
     map (\<lambda>i.
       let policy = \<lparr>policy_id = ''bench-001'', description = ''Benchmark'',
             circuit_constraints = [Range ''value'' 0 100]\<rparr>;
           gen = register_policy hash g (seed i) generator_new policy;
           act = with_numeric (action_new ''BENCH'') ''value'' 50
       in generate_proof hash g (rnd i) iter gen ''bench-001'' act (as_bytes ''bench-trace'') (clock i)) [0..<20]"

lemma bench_zk_proof_generation_proves:
  assumes "\<And>i. \<exists>keys. circuit_specific_setup g (seed i) (generate_constraints \<lparr>circuit_values = [42, 100]\<rparr>) = Inr keys"
    and "result \<in> set (bench_zk_proof_generation hash g iter seed rnd clock)"
  shows "is_ok result"
proof -
  have "verify_constraints [Range ''value'' 0 100] (with_numeric (action_new ''BENCH'') ''value'' 50) = Inr True"
    by (simp add: verify_constraints_def with_numeric_def action_new_def get_numeric_def word_sle_eq)
  moreover obtain i where "result = generate_proof hash g (rnd i) iter (register_policy hash g (seed i) generator_new
      \<lparr>policy_id = ''bench-001'', description = ''Benchmark'', circuit_constraints = [Range ''value'' 0 100]\<rparr>)
      ''bench-001'' (with_numeric (action_new ''BENCH'') ''value'' 50) (as_bytes ''bench-trace'') (clock i)"
    using assms(2) by (auto simp: bench_zk_proof_generation_def Let_def)
  moreover obtain keys where "circuit_specific_setup g (seed i) (generate_constraints \<lparr>circuit_values = [42, 100]\<rparr>) = Inr keys"
    using assms(1) by blast
  ultimately show ?thesis
    by (auto simp: generate_proof_def register_policy_def Let_def split: sum.splits prod.splits)
qed

end
