(* ===== verification/IntegrationTests.thy ===== *)
theory IntegrationTests
  imports UnitTests
begin

text \<open>
  The integration tests of \<^verbatim>\<open>tests/integration/pipeline_test.rs\<close> over the model, in the manner of the
  unit tests. The names are the tests' own.
\<close>

definition test_telemetry_frame_creation :: bool where
  "test_telemetry_frame_creation =
     unwrapped sample_frame (\<lambda>frame. payload frame \<noteq> [] \<and> source_ip frame = ''192.168.1.100'')"

lemma test_telemetry_frame_creation_passes: "test_telemetry_frame_creation"
  by (simp add: test_telemetry_frame_creation_def sample_frame_def unwrap_frame_def frame_build_def
      with_payload_str_def with_source_ip_def with_frame_id_def or_default_def as_bytes_def)

definition test_frame_metadata_propagation :: bool where
  "test_frame_metadata_propagation = unwrapped sample_frame (\<lambda>frame.
     let frame1 = frame\<lparr>metadata := (metadata frame)\<lparr>fm_latency_ms := Some (f64_lit 50)\<rparr>\<rparr>;
         frame2 = frame1\<lparr>metadata := (metadata frame1)\<lparr>fm_agent_mode := Some ''online''\<rparr>\<rparr>
     in fm_latency_ms (metadata frame2) = Some (f64_lit 50)
        \<and> fm_agent_mode (metadata frame2) = Some ''online'')"

lemma test_frame_metadata_propagation_passes: "test_frame_metadata_propagation"
  by (simp add: test_frame_metadata_propagation_def sample_frame_def unwrap_frame_def frame_build_def)

definition test_network_quality_modes :: bool where
  "test_network_quality_modes =
     (\<not> is_degraded excellent_network \<and> \<not> is_offline excellent_network
      \<and> is_degraded degraded_network \<and> \<not> is_offline degraded_network
      \<and> is_offline offline_network)"

lemma test_network_quality_modes_passes: "test_network_quality_modes"
  using named_networks offline_imp_degraded by (auto simp: test_network_quality_modes_def)

definition test_agent_mode_transitions :: bool where
  "test_agent_mode_transitions =
     (let current_mode = Online;
          current_mode1 = (if is_degraded degraded_network then Degraded else current_mode);
          current_mode2 = (if is_offline offline_network then Offline else current_mode1)
      in current_mode = Online \<and> current_mode1 = Degraded \<and> current_mode2 = Offline)"

lemma test_agent_mode_transitions_passes: "test_agent_mode_transitions"
  using named_networks by (simp add: test_agent_mode_transitions_def)

definition test_multiple_frames_sequence :: bool where
  "test_multiple_frames_sequence = unwrapped (sample_frames 10) (\<lambda>frames.
     length frames = 10
     \<and> list_all (\<lambda>(i, frame). frame_id frame = of_nat (i + 1)) (zip [0..<length frames] frames))"

lemma test_multiple_frames_sequence_passes: "test_multiple_frames_sequence"
proof -
  obtain fs where fs: "sample_frames 10 = Inr fs" "map frame_id fs = map of_nat [1..<Suc 10]"
    using fixtures_as_named[of 10 0 excellent_network] by auto
  have len: "length fs = 10" using arg_cong[OF fs(2), of length] by simp
  have "frame_id (fs ! i) = of_nat (i + 1)" if "i < 10" for i
    using arg_cong[OF fs(2), of "\<lambda>xs. xs ! i"] that len by (simp del: upt_Suc)
  then show ?thesis
    using fs(1) len by (auto simp: test_multiple_frames_sequence_def list_all_iff set_zip)
qed

definition test_frame_with_quality_metadata :: bool where
  "test_frame_with_quality_metadata =
     (let quality = degraded_network
      in unwrapped (frame_with_quality 100 quality) (\<lambda>frame.
           frame_id frame = 100 \<and> fm_latency_ms (metadata frame) = Some (latency_ms quality)
           \<and> fm_packet_loss_pct (metadata frame) = Some (packet_loss_pct quality)))"

lemma test_frame_with_quality_metadata_passes: "test_frame_with_quality_metadata"
  by (simp add: test_frame_with_quality_metadata_def frame_with_quality_def unwrap_frame_def frame_build_def
      with_metadata_def with_payload_str_def with_source_ip_def with_frame_id_def or_default_def)

end
