(* ===== verification/Spec2Isabelle.thy ===== *)
theory Spec2Isabelle
  imports AgentMain Duplex TeeGateway ZkProofs Helpers XdpIngest XdpProg TimeUtil Metrics LeanModels
    IntegrationTests
begin

text \<open>
  A verification development for SovereignEdge-TEE-Agent, a Rust workspace that carries telemetry
  from an edge node to a cloud model: packets are ingested (\<^verbatim>\<open>crates/xdp-ingest\<close>), an agent decides
  per frame between cloud offload and local inference (\<^verbatim>\<open>crates/edge-agent\<close>), frames travel over a
  post-quantum channel (\<^verbatim>\<open>crates/pqc-transport\<close>) to a gateway in a trusted execution environment
  that asks the Qwen API (\<^verbatim>\<open>crates/tee-gateway\<close>), and actions are checked against policies with
  proofs attached (\<^verbatim>\<open>crates/zk-proofs\<close>). \<^verbatim>\<open>crates/common\<close> and \<^verbatim>\<open>crates/helpers\<close> hold shared types.

  \<^bold>\<open>Theories.\<close> \<open>Prelude\<close>: machine integers as words (arithmetic wraps, as in the release profile the
  workspace builds), panics of the standard library as values, little-endian bytes. \<open>Float64\<close>: IEEE
  numbers as exact rationals with rounding to nearest, ties to even; infinities and NaN; no signed
  zero, which no comparison of the code distinguishes (a sensor reading of -0 would print its sign).
  \<open>Text\<close>: strings as their UTF-8 bytes, printing of numbers and hex, \<^verbatim>\<open>from_utf8_lossy\<close>, trimming, lines.
  \<open>FloatText\<close>: parsing and printing of floats, and how near the printed number is.
  \<open>Common\<close> (\<^verbatim>\<open>common/src/lib.rs\<close>): frames, network quality, modes, the context buffer.
  \<open>Inference\<close> and \<open>EdgeAgent\<close> (\<^verbatim>\<open>edge-agent/src/inference.rs\<close>, \<^verbatim>\<open>lib.rs\<close>): backends and the agent.
  \<open>Hardware\<close> (\<^verbatim>\<open>edge-agent/src/hardware.rs\<close>): accelerators and sensors over a snapshot of the host's
  files. \<open>AgentMain\<close> (\<^verbatim>\<open>edge-agent/src/main.rs\<close>): the agent's binary.
  \<open>PqcTransport\<close> (\<^verbatim>\<open>pqc-transport/src/lib.rs\<close>): sessions, key exchange, the session manager.
  \<open>Channel\<close> and \<open>Duplex\<close>: the managers in use, as step relations: one manager under all its operations,
  two over a network under attack, in one direction and in both at once.
  \<open>TeeGateway\<close> (\<^verbatim>\<open>tee-gateway/src/lib.rs\<close>, \<^verbatim>\<open>main.rs\<close>): sealing, the API relay, the execution log.
  \<open>ZkProofs\<close> (\<^verbatim>\<open>zk-proofs/src/lib.rs\<close>): policies, proofs, log. \<open>Helpers\<close> (\<^verbatim>\<open>helpers/src\<close>): the zero-copy
  buffer, builders, fixtures; \<open>TimeUtil\<close> and \<open>Metrics\<close>: its clock and its metrics placeholders.
  \<open>XdpProg\<close> (\<^verbatim>\<open>xdp-ingest/bpf/xdp_prog.c\<close>): the kernel's packet filter over the bytes of a packet.
  \<open>XdpIngest\<close> (\<^verbatim>\<open>xdp-ingest/src/main.rs\<close>): UMEM, the receive loop and the daemon. \<open>UnitTests\<close> and
  \<open>IntegrationTests\<close>: the tests as programs over the model, each with a lemma that it passes.
  \<open>LeanModels\<close> (\<^verbatim>\<open>verification/SovereignEdge\<close>): the repository's Lean models of four algorithms, and the
  refinement between the models of the code and them.

  \<^bold>\<open>Conventions.\<close> A struct is a record, an enum a datatype, \<^verbatim>\<open>Result\<close> a sum with the error on the left;
  a function that may panic returns \<open>panic + _\<close>. A method with \<^verbatim>\<open>&mut self\<close> returns the updated record
  with its result. Clock readings, random draws and the answers of the outside world are arguments.
  Third-party code is a parameter: \<open>llama_api\<close> and its loader, \<open>crypto\<close>, \<open>json_api\<close> and the \<open>post\<close>
  function, \<open>groth16\<close>, \<open>sha256\<close>; what is relied on is a named hypothesis, and the witnesses instantiate it with a concrete
  instance: \<open>kem_correct\<close> and \<open>aead_correct\<close> say that decapsulation and decryption invert encapsulation
  and encryption, and \<open>unforged\<close>, the integrity of AES-GCM, is asked only of the calls to decrypt that
  a run makes, which \<open>Channel\<close> and \<open>Duplex\<close> log with their keys and nonces: whichever succeeds has a
  ciphertext made in the run. Loops are recursive functions that terminate; no fuel is used. Tracing
  output is left out.

  \<^bold>\<open>Interfaces.\<close> Locales state what a client relies on: \<open>rolling_buffer\<close> (the context buffer),
  \<open>token_budget\<close> (inference backends), \<open>nonce_discipline\<close> (both directions of a session) and its
  extension \<open>frame_direction\<close> (the manager's frame operations),
  \<open>sealing_backend\<close> (the simulated TEE), \<open>byte_queue\<close> (the zero-copy buffer); each is interpreted on
  the model of the code.

  \<^bold>\<open>What is shown.\<close> For the buffer: its loops refine a declarative specification, its caps hold exactly
  when they can. For the agent: an invariant of all reachable states ties mode, quality, counters
  and buffer; frames are routed by the last reported quality. For the transport: no (key, nonce)
  pair repeats within a session, though a handshake sent again makes a second session with the same
  keys (\<open>replayed_handshake\<close>); the key exchange agrees; a manager keeps its shape; a handshake fails
  exactly on the malformed inputs the code names; a lost frame cuts the channel; while no forgery
  succeeds, whatever an attacker does to the network, each end of a session accepts a prefix of what
  the other sent, and delivery in order completes it; below, that two fresh ends deliver in both directions after one
  handshake. For the gateway: sealing refines "the last text, once
  attested", responses are never empty, the log identifies its content under a proviso. For the policies: evaluation with
  floating-point casts equals the exact meaning within the doubles' integer range, and the limits
  of the verifier and the circuit. For the packet filter: it reads no byte outside of a packet, and for
  which packets it agrees with the standards of the Internet. For the helpers and the daemon:
  byte-queue behaviour, exact slices, absence of panics, and how far a printed duration is from the
  measured one. For the hardware: when a GPU counts for llama.cpp, which file each sensor value comes
  from, and how far a printed sensor line is from what the file says. For the binary: the outcome of
  the demo run in each mode; below, that the fixtures' networks drive any agent to the mode they are
  named after. The Lean models are refined: for the buffer by every run, for policies when the
  thresholds are integers below \<open>2 ^ 53\<close>. Across components, below: every string the program
  builds from arbitrary payload bytes is valid UTF-8.

  \<^bold>\<open>Not modelled.\<close> Argument parsing, logging, sleeping and the spawning of threads, whose interleavings
  are step relations or arguments of the model; the poisoning of locks, since no thread panics while
  it holds one; \<^verbatim>\<open>tests/integration/pqc_transport_test.rs\<close>, which does not compile against the crate it
  tests; the proofs of the Lean models.
\<close>

section \<open>A channel from the handshake on\<close>

text \<open>C8: The handshake and the channel together: one end establishes a session for the public key
  of the other, which accepts it; then every list of frames the first sends is delivered, and every
  list the second sends back after that, within AES-GCM's limit and fewer than \<open>2 ^ 64\<close> frames each
  way, whatever sessions the two managers held before.\<close>

theorem handshake_then_delivery:
  assumes "kem_correct cr" and "aead_correct cr" and "kem = kem_generate cr x25519_secret mlkem_seed"
    and "list_all (\<lambda>(f, now). length (payload f) \<le> 2 ^ 36) (fs @ gs)"
    and "length fs \<le> 2 ^ 64" and "length gs \<le> 2 ^ 64"
    and "length fnows = length fs" and "length gnows = length gs"
  shows "\<exists>t0 r enc u0 q t1 fe u1 u2 ge t2.
    establish_session cr t (local_public kem) eph rnd id1 now1 = (t0, Inr (r, enc))
    \<and> accept_session cr u kem enc id2 now2 = (u0, Inr q)
    \<and> send_frames cr t0 r fs = (t1, map Inr fe)
    \<and> receive_frames cr u0 q (zip fe fnows) = (u1, map (Inr \<circ> payload \<circ> fst) fs)
    \<and> send_frames cr u1 q gs = (u2, map Inr ge)
    \<and> receive_frames cr t1 r (zip ge gnows) = (t2, map (Inr \<circ> payload \<circ> fst) gs)"
proof -
  obtain t0 r enc u0 q where h: "establish_session cr t (local_public kem) eph rnd id1 now1 = (t0, Inr (r, enc))"
      "accept_session cr u kem enc id2 now2 = (u0, Inr q)"
      "linked (tr_store t0 ! r) (tr_store u0 ! q)" "linked (tr_store u0 ! q) (tr_store t0 ! r)"
      "r < length (tr_store t0)" "q < length (tr_store u0)"
      "send_nonce (tr_store t0 ! r) = 0" "send_nonce (tr_store u0 ! q) = 0"
    by (rule handshake[OF assms(1,3), of t eph rnd id1 now1 u id2 now2])
  obtain t1 fe u1 where f: "send_frames cr t0 r fs = (t1, map Inr fe)"
      "receive_frames cr u0 q (zip fe fnows) = (u1, map (Inr \<circ> payload \<circ> fst) fs)"
    using channel_delivers[OF assms(2) h(5,6,3), of fs fnows] assms(4,5,7) h(7) by auto
  note k = send_frames_keep[OF f(1) h(5)] receive_frames_keep[OF f(2) h(6)]
  have "linked (tr_store u1 ! q) (tr_store t1 ! r)" using k h(4) by (simp add: linked_def)
  then obtain u2 ge t2 where "send_frames cr u1 q gs = (u2, map Inr ge)"
      "receive_frames cr t1 r (zip ge gnows) = (t2, map (Inr \<circ> payload \<circ> fst) gs)"
    using channel_delivers[OF assms(2), of q u1 r t1 gs gnows] assms(4,6,8) h(5,6,8) k by auto
  with h(1,2) f show ?thesis by blast
qed

theorem handshake_then_delivery_witness:
  "\<exists>t0 r enc t1 fe t2 ge. establish_session toy_crypto (transport_new 60)
       (local_public (kem_generate toy_crypto [4] [5])) [6] [7] 8 9 = (t0, Inr (r, enc))
     \<and> send_frames toy_crypto t0 r [(toy_frame, 1), (toy_frame, 2)] = (t1, map Inr fe)
     \<and> receive_frames toy_crypto t1 r (zip ge [7]) = (t2, [Inr [1, 2]])"
  using handshake_then_delivery[OF toy_kem toy_aead refl, of "[(toy_frame, 1), (toy_frame, 2)]" "[(toy_frame, 5)]"
      "[3, 4]" "[7]" "transport_new 60" "[4]" "[5]" "[6]" "[7]" 8 9 "transport_new 60" 0 0]
  by (fastforce simp: toy_frame_def)

section \<open>The fixtures and the agent\<close>

text \<open>The fixtures' networks are what their names say to the agent: reported to any agent, whatever
  its state, each brings it to the mode of its name, with at most one callback call, from its
  mode to the new one; a frame that comes next goes to the cloud, or with the offline network
  to the local backend.\<close>

lemma fixtures_drive_agent:
  "list_all (\<lambda>(q, m, src). case update_network_quality a q of (a1, calls) \<Rightarrow>
      ag_mode a1 = m
      \<and> calls = (if ag_callback a \<and> ag_mode a \<noteq> m then [(ag_mode a, m)] else [])
      \<and> ir_source (snd (process_frame a1 f now)) = src)
    [(excellent_network, Online, Cloud), (degraded_network, Degraded, Cloud), (offline_network, Offline, Local)]"
proof -
  define good where "good q m src \<longleftrightarrow> (case update_network_quality a q of (a1, calls) \<Rightarrow>
      ag_mode a1 = m \<and> calls = (if ag_callback a \<and> ag_mode a \<noteq> m then [(ag_mode a, m)] else [])
      \<and> ir_source (snd (process_frame a1 f now)) = src)" for q m src
  have good: "good q m (if m = Offline then Local else Cloud)"
    if m: "m = (if is_offline q then Offline else if is_degraded q then Degraded else Online)" for q m
  proof -
    obtain a1 calls where 1: "update_network_quality a q = (a1, calls)" by fastforce
    obtain a2 r where 2: "process_frame a1 f now = (a2, r)" by fastforce
    have "ag_mode a1 = m" "ag_quality a1 = q"
      using update_network_quality_effect(1,2)[OF 1] m by (auto simp: determine_mode_def)
    then show ?thesis
      using 1 2 update_network_quality_effect(7)[OF 1] process_frame_effect(8,9)[OF 2] m
      by (auto simp: good_def split: if_splits)
  qed
  have "\<not> is_offline excellent_network" "\<not> is_degraded excellent_network"
      "\<not> is_offline degraded_network" "is_degraded degraded_network" "is_offline offline_network"
    using fixtures_as_named[of 0 0 excellent_network] offline_imp_degraded by blast+
  then have "list_all (\<lambda>(q, m, src). good q m src)
      [(excellent_network, Online, Cloud), (degraded_network, Degraded, Cloud), (offline_network, Offline, Local)]"
    using good[OF refl, of excellent_network] good[OF refl, of degraded_network] good[OF refl, of offline_network]
    by simp
  then show ?thesis unfolding good_def .
qed

section \<open>Strings\<close>

text \<open>C40: Strings stay valid UTF-8, the invariant of Rust's \<^verbatim>\<open>String\<close>, although payloads and API tokens are
  arbitrary bytes: a backend that gives text for text - the simulated one does, and the llama.cpp one
  when the binding's strings are text - is only ever asked with text and all strings of the agent's
  result are text; and every request that an initialised gateway posts, with its key, address,
  model and prompt, is text.\<close>

theorem strings_stay_text:
  assumes "is_text (source_ip f)"
    and "ag_backend a = simulated_backend \<or> (\<exists>api name. (ag_backend a = llama_backend api name)
      \<and> api_texts (api :: ('c, 'b, 't, 's, 'd) llama_api) \<and> is_text name)"
    and "process_frame a f now = (a', r)"
    and "gateway_initialize builds (gateway_new_live tee endpoint mdl) token = Inr (gw, Inr ())"
    and "is_text endpoint" and "is_text mdl"
    and "gateway_process_frame js post gw f now = (gw', posted, res)"
  shows "text_backend (ag_backend a') \<and> is_text (local_prompt f) \<and> is_text (action r)
    \<and> (\<forall>v \<in> ran (ir_metadata r). is_text v)
    \<and> list_all (\<lambda>rq. is_text (rq_url rq) \<and> is_text (rq_bearer rq) \<and> is_text (rq_model rq)
        \<and> list_all (\<lambda>(r, c). is_text r \<and> is_text c) (rq_messages rq)) posted"
proof -
  have "text_backend (ag_backend a)"
    using assms(2) simulated_backend_text llama_backend_text by auto
  from process_frame_text[OF assms(3) this assms(1)] have
    "text_backend (ag_backend a') \<and> is_text (action r) \<and> (\<forall>v \<in> ran (ir_metadata r). is_text v)" .
  moreover have "list_all request_text posted"
    using posted_text[OF assms(7,1)] initialized_text[OF assms(4)] assms(5,6)
    by (simp add: gateway_new_live_def gateway_new_def)
  ultimately show ?thesis
    using local_prompt_text[OF assms(1)] unfolding request_text_def[abs_def] by blast
qed

theorem strings_stay_text_witness:
  "\<exists>a' r. process_frame ((agent_new 5)\<lparr>ag_mode := Offline\<rparr>) (toy_frame\<lparr>payload := [0xFF, 0xC3]\<rparr>) 7 = (a', r)
     \<and> is_text (action r)"
proof -
  let ?a = "(agent_new 5)\<lparr>ag_mode := Offline\<rparr>" and ?f = "toy_frame\<lparr>payload := [0xFF, 0xC3]\<rparr>"
  obtain a' r where p: "process_frame ?a ?f 7 = (a', r)" by fastforce
  obtain gw where g: "gateway_initialize True (gateway_new_live (simulated_tee id) ''https://x/'' ''qwen'') [0xFF]
      = Inr (gw, Inr ())"
    by (simp add: gateway_initialize_def gateway_new_live_def gateway_new_def storage_new_def verify_attestation_def
        storage_seal_def simulated_tee_def simulated_tee_methods_def)
  obtain gw' posted res where q: "gateway_process_frame toy_json (\<lambda>_. Inl ''down'') gw ?f 7 = (gw', posted, res)"
    by (metis prod.collapse)
  have "is_text (source_ip ?f)" by (simp add: toy_frame_def)
  from strings_stay_text[OF this _ p g _ _ q] have "is_text (action r)" by (simp add: agent_new_def)
  with p show ?thesis by blast
qed

end
